theory Spec2Isabelle
  imports Main "HOL-Library.Word"
begin

section \<open>The hypervisor's data model\<close>

text \<open>
  The embedding follows \<^verbatim>\<open>pkg/hypervisor/hypervisor.go\<close>. A Go \<^verbatim>\<open>error\<close> is
  identified with its \<^verbatim>\<open>Error()\<close> text, a \<^verbatim>\<open>cipher.PubKey\<close> and a \<^verbatim>\<open>uuid.UUID\<close>
  with their text forms (what \<^verbatim>\<open>%s\<close> prints), a \<^verbatim>\<open>time.Time\<close> with its nanoseconds
  since the Unix epoch, and a function returning \<^verbatim>\<open>(v, err)\<close> returns a sum with \<open>Inl\<close> for the error.
\<close>

type_synonym error = string
type_synonym PubKey = string
type_synonym UUID = string
type_synonym RouteID = "32 word"
type_synonym Time = int
type_synonym Rule = "8 word list"
type_synonym RuleSummary = string

text \<open>\<^verbatim>\<open>dmsg.Addr\<close>: the public key and port of a remote.\<close>

record Addr =
  PK :: PubKey
  Port :: "16 word"

text \<open>
  Modelled from the spec: the structures \<^verbatim>\<open>visor.Summary\<close>, \<^verbatim>\<open>visor.HealthInfo\<close>,
  \<^verbatim>\<open>visor.AppState\<close> and \<^verbatim>\<open>visor.TransportSummary\<close> are declared in package
  \<^verbatim>\<open>visor\<close>, outside this file. Each keeps the fields this file reads or sets
  (\<^verbatim>\<open>PubKey\<close>, \<^verbatim>\<open>Name\<close>, \<^verbatim>\<open>AutoStart\<close>, \<^verbatim>\<open>ID\<close>); the remaining fields of a summary
  and of a transport summary are gathered in one field whose Go zero value is the
  empty list, and the health information, which this file only passes on, is the
  list of its fields with their values.
\<close>

record Summary =
  PubKey :: PubKey
  Payload :: "string list"

type_synonym HealthInfo = "(string \<times> int) list"

record AppState =
  Name :: string
  AutoStart :: bool

record TransportSummary =
  ID :: UUID
  Detail :: "string list"

text \<open>
  Modelled from the spec: \<^verbatim>\<open>visor.RPCClient\<close>, the remote capability, is an interface
  of package \<^verbatim>\<open>visor\<close>; every call may fail with an error. A call is an effect of
  the environment: the record holds what the remote visor answers to each call of the
  request at hand, for the calls the handlers below issue.
\<close>

record RPCClient =
  RPC_Summary :: "error + Summary"
  RPC_Health :: "error + HealthInfo"
  RPC_Apps :: "error + AppState list"
  RPC_LogsSince :: "Time \<Rightarrow> string \<Rightarrow> error + string list"
  RPC_Transport :: "UUID \<Rightarrow> error + TransportSummary"
  RPC_RoutingRule :: "RouteID \<Rightarrow> error + Rule"
  RPC_RemoveRoutingRule :: "RouteID \<Rightarrow> error option"

text \<open>
  \<^verbatim>\<open>VisorConn\<close>. The pty UI is determined by the address its dialer targets;
  \<open>None\<close> is the nil pointer the mock data leaves there.
\<close>

record VisorConn =
  Addr :: Addr
  RPC :: RPCClient
  PtyUI :: "Addr option"

text \<open>
  \<^verbatim>\<open>Hypervisor\<close>: the registry \<^verbatim>\<open>visors map[cipher.PubKey]VisorConn\<close>. The
  configuration, the assets and the user manager take no part in the registry or in
  the dispatch of calls; the mutex \<^verbatim>\<open>mu\<close> shows in the events below.
\<close>

record Hypervisor =
  visors :: "PubKey \<rightharpoonup> VisorConn"

section \<open>Observable events\<close>

text \<open>
  What a handler does beyond computing values is recorded as a list of events in the
  order they happen: taking and releasing \<^verbatim>\<open>hv.mu\<close>, issuing a call on the RPC
  client of a visor (named by the public key of its address), \<^verbatim>\<open>httputil.WriteJSON\<close>
  with its status code and value, and the panic of a nil pointer dereference. A
  pointer written as JSON is an option, \<open>None\<close> for nil.
\<close>

datatype rpc =
  Summary_call
  | Health_call
  | Apps_call
  | LogsSince_call Time string
  | Transport_call UUID
  | RoutingRule_call RouteID
  | RemoveRoutingRule_call RouteID

record VisorHealth =
  Status :: int
  HealthInfo :: "HealthInfo option"

record summaryResp =
  TCPAddr :: string
  Online :: bool
  Summary :: "Summary option"

record LogsRes =
  LastLogTimestamp :: string
  Logs :: "string list"

record routingRuleResp =
  Key :: RouteID
  Rule :: string
  RuleSummary :: "RuleSummary option"

datatype json =
  JError error
  | JHealth VisorHealth
  | JSummaries "summaryResp list"
  | JApp "AppState option"
  | JLogs LogsRes
  | JTransport "TransportSummary option"
  | JRule routingRuleResp
  | JBool bool

datatype event =
  Lock
  | Unlock
  | RLock
  | RUnlock
  | Call PubKey rpc
  | WriteJSON nat json
  | Panic

section \<open>Registry: the accept loop and the lookup\<close>

text \<open>\<^verbatim>\<open>New\<close>: the registry starts empty.\<close>

definition New :: Hypervisor where
  "New = \<lparr>visors = Map.empty\<rparr>"

text \<open>
  \<^verbatim>\<open>skyenv.DmsgPtyPort\<close> is declared outside this file; it is a parameter of the
  accept loop.
\<close>

definition accepted :: "16 word \<Rightarrow> Addr \<times> RPCClient \<Rightarrow> VisorConn" where
  "accepted ptyPort s =
     \<lparr>Addr = fst s, RPC = snd s, PtyUI = Some \<lparr>PK = PK (fst s), Port = ptyPort\<rparr>\<rparr>"

text \<open>
  \<^verbatim>\<open>ServeRPC\<close>. The listener is the list of what \<^verbatim>\<open>AcceptStream\<close> returns, in
  order: an error, or a stream with its remote address and the RPC client built on
  it. The loop leaves only through the error; when the list is used up the loop is
  still waiting in \<^verbatim>\<open>AcceptStream\<close> and the result is the registry so far with no
  error. The events are the \<^verbatim>\<open>Lock\<close> and \<^verbatim>\<open>Unlock\<close> around each store.
\<close>

fun ServeRPC ::
  "16 word \<Rightarrow> Hypervisor \<Rightarrow> (error + Addr \<times> RPCClient) list
     \<Rightarrow> event list \<times> Hypervisor \<times> error option"
where
  "ServeRPC ptyPort hv [] = ([], hv, None)"
| "ServeRPC ptyPort hv (Inl err # lis) = ([], hv, Some err)"
| "ServeRPC ptyPort hv (Inr s # lis) =
     (case ServeRPC ptyPort
             (hv\<lparr>visors := (visors hv)(PK (fst s) \<mapsto> accepted ptyPort s)\<rparr>) lis of
        (evs, hv', r) \<Rightarrow> (Lock # Unlock # evs, hv', r))"

text \<open>
  \<^verbatim>\<open>visorConn\<close>: the lookup under the read lock. Go returns the zero
  \<^verbatim>\<open>VisorConn\<close> with \<^verbatim>\<open>ok = false\<close> for an absent key; here that is \<open>None\<close>.
\<close>

definition visorConn :: "Hypervisor \<Rightarrow> PubKey \<Rightarrow> event list \<times> VisorConn option" where
  "visorConn hv pk = ([RLock, RUnlock], visors hv pk)"

section \<open>Requests and what the file takes from other packages\<close>

text \<open>
  Of an \<^verbatim>\<open>http.Request\<close> the handlers read the URL parameters the router bound
  (\<^verbatim>\<open>chi.URLParam\<close>, the empty string for an unbound name) and the query values.
\<close>

record Request =
  URLParams :: "string \<rightharpoonup> string"
  Query :: "string \<rightharpoonup> string list"

definition URLParam :: "Request \<Rightarrow> string \<Rightarrow> string" where
  "URLParam r key = (case URLParams r key of None \<Rightarrow> [] | Some v \<Rightarrow> v)"

definition Query_Get :: "Request \<Rightarrow> string \<Rightarrow> string" where
  "Query_Get r key = (case Query r key of Some (v # vs) \<Rightarrow> v | _ \<Rightarrow> [])"

text \<open>
  Functions and values of other packages that the file calls and that are not part
  of it are parameters: \<^verbatim>\<open>cipher.PubKey.UnmarshalText\<close>, \<^verbatim>\<open>uuid.Parse\<close>, the text of
  \<^verbatim>\<open>visor.ErrNotFound\<close>, \<^verbatim>\<open>dmsg.Addr.String\<close>, \<^verbatim>\<open>time.Parse\<close> with the layout
  \<^verbatim>\<open>time.RFC3339Nano\<close>, \<^verbatim>\<open>app.TimestampFromLog\<close>, \<^verbatim>\<open>httputil.BoolFromQuery\<close> and
  \<^verbatim>\<open>routing.Rule.Summary\<close>.
\<close>

record Deps =
  UnmarshalText :: "string \<Rightarrow> error + PubKey"
  uuid_Parse :: "string \<Rightarrow> error + UUID"
  ErrNotFound :: error
  Addr_String :: "Addr \<Rightarrow> string"
  time_Parse :: "string \<Rightarrow> error + Time"
  TimestampFromLog :: "string \<Rightarrow> string"
  BoolFromQuery :: "Request \<Rightarrow> string \<Rightarrow> bool \<Rightarrow> error + bool"
  Rule_Summary :: "Rule \<Rightarrow> RuleSummary"

section \<open>Parameter parsing\<close>

definition pkFromParam :: "Deps \<Rightarrow> Request \<Rightarrow> string \<Rightarrow> error + PubKey" where
  "pkFromParam d r key = UnmarshalText d (URLParam r key)"

definition uuidFromParam :: "Deps \<Rightarrow> Request \<Rightarrow> string \<Rightarrow> error + UUID" where
  "uuidFromParam d r key = uuid_Parse d (URLParam r key)"

text \<open>
  \<^verbatim>\<open>strconv.ParseUint(s, 10, 32)\<close>: a non-empty string of decimal digits whose value
  is below \<open>2 ^ 32\<close>; no sign, no underscore.
\<close>

definition digit :: "char \<Rightarrow> nat option" where
  "digit c = (let n = (of_char c :: nat) in if 48 \<le> n \<and> n \<le> 57 then Some (n - 48) else None)"

fun digits :: "nat \<Rightarrow> string \<Rightarrow> nat option" where
  "digits acc [] = Some acc"
| "digits acc (c # cs) =
     (case digit c of None \<Rightarrow> None | Some v \<Rightarrow> digits (10 * acc + v) cs)"

definition ParseUint32 :: "string \<Rightarrow> nat option" where
  "ParseUint32 s =
     (if s = [] then None
      else case digits 0 s of
             None \<Rightarrow> None
           | Some n \<Rightarrow> if n < 2 ^ 32 then Some n else None)"

definition ridFromParam :: "Request \<Rightarrow> string \<Rightarrow> error + RouteID" where
  "ridFromParam r key =
     (case ParseUint32 (URLParam r key) of
        None \<Rightarrow> Inl ''invalid route ID provided''
      | Some rid \<Rightarrow> Inr (word_of_nat rid))"

section \<open>The resolver stages\<close>

text \<open>
  \<^verbatim>\<open>httpCtx\<close>. \<open>Conn\<close> is the embedded \<^verbatim>\<open>VisorConn\<close>; the two pointers are
  options, \<open>None\<close> for nil.
\<close>

record httpCtx =
  Conn :: VisorConn
  App :: "AppState option"
  Tp :: "TransportSummary option"
  RtKey :: RouteID

type_synonym valuesFunc = "Request \<Rightarrow> event list \<times> httpCtx option"
type_synonym handlerFunc = "Request \<Rightarrow> httpCtx \<Rightarrow> event list"

text \<open>
  A stage returns the events it caused and the context; \<open>None\<close> is
  \<^verbatim>\<open>(nil, false)\<close>. \<^verbatim>\<open>withCtx\<close> runs the handler only on \<^verbatim>\<open>ok\<close>.
\<close>

definition withCtx :: "valuesFunc \<Rightarrow> handlerFunc \<Rightarrow> Request \<Rightarrow> event list" where
  "withCtx vFunc hFunc r =
     (case vFunc r of
        (evs, Some rv) \<Rightarrow> evs @ hFunc r rv
      | (evs, None) \<Rightarrow> evs)"

definition visorCtx :: "Deps \<Rightarrow> Hypervisor \<Rightarrow> valuesFunc" where
  "visorCtx d hv r =
     (case pkFromParam d r ''pk'' of
        Inl err \<Rightarrow> ([WriteJSON 400 (JError err)], None)
      | Inr pk \<Rightarrow>
          (case visorConn hv pk of
             (evs, None) \<Rightarrow>
               (evs @ [WriteJSON 404
                  (JError (''visor of pk '' @ [CHR 0x27] @ pk @ [CHR 0x27] @ '' not found''))],
                None)
           | (evs, Some visor) \<Rightarrow>
               (evs, Some \<lparr>Conn = visor, App = None, Tp = None, RtKey = 0\<rparr>)))"

definition appCtx :: "Deps \<Rightarrow> Hypervisor \<Rightarrow> valuesFunc" where
  "appCtx d hv r =
     (case visorCtx d hv r of
        (evs, None) \<Rightarrow> (evs, None)
      | (evs, Some ctx) \<Rightarrow>
          (let appName = URLParam r ''app'';
               evs' = evs @ [Call (PK (Addr (Conn ctx))) Apps_call]
           in case RPC_Apps (RPC (Conn ctx)) of
                Inl err \<Rightarrow> (evs' @ [WriteJSON 500 (JError err)], None)
              | Inr apps \<Rightarrow>
                  (case find (\<lambda>a. Name a = appName) apps of
                     Some a \<Rightarrow> (evs', Some (ctx\<lparr>App := Some a\<rparr>))
                   | None \<Rightarrow>
                       (evs' @ [WriteJSON 404
                          (JError (''can not find app of name '' @ appName @ '' from visor ''
                                     @ PK (Addr (Conn ctx))))],
                        None))))"

definition tpCtx :: "Deps \<Rightarrow> Hypervisor \<Rightarrow> valuesFunc" where
  "tpCtx d hv r =
     (case visorCtx d hv r of
        (evs, None) \<Rightarrow> (evs, None)
      | (evs, Some ctx) \<Rightarrow>
          (case uuidFromParam d r ''tid'' of
             Inl err \<Rightarrow> (evs @ [WriteJSON 400 (JError err)], None)
           | Inr tid \<Rightarrow>
               (let evs' = evs @ [Call (PK (Addr (Conn ctx))) (Transport_call tid)]
                in case RPC_Transport (RPC (Conn ctx)) tid of
                     Inl err \<Rightarrow>
                       (if err = ErrNotFound d
                        then (evs' @ [WriteJSON 404
                                (JError (''transport of ID '' @ tid @ '' is not found''))],
                              None)
                        else (evs' @ [WriteJSON 500 (JError err)], None))
                   | Inr tp \<Rightarrow> (evs', Some (ctx\<lparr>Tp := Some tp\<rparr>)))))"

definition routeCtx :: "Deps \<Rightarrow> Hypervisor \<Rightarrow> valuesFunc" where
  "routeCtx d hv r =
     (case visorCtx d hv r of
        (evs, None) \<Rightarrow> (evs, None)
      | (evs, Some ctx) \<Rightarrow>
          (case ridFromParam r ''rid'' of
             Inl err \<Rightarrow> (evs @ [WriteJSON 400 (JError err)], None)
           | Inr rid \<Rightarrow> (evs, Some (ctx\<lparr>RtKey := rid\<rparr>))))"

section \<open>Handlers behind a resolver stage\<close>

definition getApp :: "Deps \<Rightarrow> Hypervisor \<Rightarrow> Request \<Rightarrow> event list" where
  "getApp d hv = withCtx (appCtx d hv) (\<lambda>r ctx. [WriteJSON 200 (JApp (App ctx))])"

definition getTransport :: "Deps \<Rightarrow> Hypervisor \<Rightarrow> Request \<Rightarrow> event list" where
  "getTransport d hv = withCtx (tpCtx d hv) (\<lambda>r ctx. [WriteJSON 200 (JTransport (Tp ctx))])"

text \<open>\<^verbatim>\<open>strings.Replace(s, old, new, 1)\<close> for one-character \<^verbatim>\<open>old\<close> and \<^verbatim>\<open>new\<close>.\<close>

fun Replace1 :: "char \<Rightarrow> char \<Rightarrow> string \<Rightarrow> string" where
  "Replace1 old new [] = []"
| "Replace1 old new (c # cs) = (if c = old then new # cs else c # Replace1 old new cs)"

text \<open>
  The time the logs are asked from: the query value \<open>since\<close> with its first space
  put back to \<open>+\<close>, and \<^verbatim>\<open>time.Unix(0, 0)\<close> when it does not parse.
\<close>

definition since_time :: "Deps \<Rightarrow> Request \<Rightarrow> Time" where
  "since_time d r =
     (let since = Replace1 (CHR '' '') (CHR ''+'') (Query_Get r ''since'')
      in case time_Parse d since of Inl err \<Rightarrow> 0 | Inr t \<Rightarrow> t)"

definition appLogsSince_h :: "Deps \<Rightarrow> handlerFunc" where
  "appLogsSince_h d r ctx =
     (let t = since_time d r
      in case App ctx of
           None \<Rightarrow> [Panic]
         | Some a \<Rightarrow>
             Call (PK (Addr (Conn ctx))) (LogsSince_call t (Name a)) #
             (case RPC_LogsSince (RPC (Conn ctx)) t (Name a) of
                Inl err \<Rightarrow> [WriteJSON 500 (JError err)]
              | Inr logs \<Rightarrow>
                  if length logs = 0
                  then [WriteJSON 500 (JError ''no new available logs'')]
                  else [WriteJSON 200 (JLogs
                          \<lparr>LastLogTimestamp = TimestampFromLog d (logs ! (length logs - 1)),
                           Logs = logs\<rparr>)]))"

definition appLogsSince :: "Deps \<Rightarrow> Hypervisor \<Rightarrow> Request \<Rightarrow> event list" where
  "appLogsSince d hv = withCtx (appCtx d hv) (appLogsSince_h d)"

text \<open>\<^verbatim>\<open>hex.EncodeToString\<close> and \<^verbatim>\<open>makeRoutingRuleResp\<close>.\<close>

definition hexdigit :: "nat \<Rightarrow> char" where
  "hexdigit n = ''0123456789abcdef'' ! n"

definition hex_EncodeToString :: "8 word list \<Rightarrow> string" where
  "hex_EncodeToString bs =
     concat (map (\<lambda>b. [hexdigit (unat b div 16), hexdigit (unat b mod 16)]) bs)"

definition makeRoutingRuleResp :: "Deps \<Rightarrow> RouteID \<Rightarrow> Rule \<Rightarrow> bool \<Rightarrow> routingRuleResp" where
  "makeRoutingRuleResp d key rule summary =
     \<lparr>Key = key, Rule = hex_EncodeToString rule,
      RuleSummary = (if summary then Some (Rule_Summary d rule) else None)\<rparr>"

definition getRoute_h :: "Deps \<Rightarrow> handlerFunc" where
  "getRoute_h d r ctx =
     (case BoolFromQuery d r ''summary'' True of
        Inl err \<Rightarrow> [WriteJSON 400 (JError err)]
      | Inr qSummary \<Rightarrow>
          Call (PK (Addr (Conn ctx))) (RoutingRule_call (RtKey ctx)) #
          (case RPC_RoutingRule (RPC (Conn ctx)) (RtKey ctx) of
             Inl err \<Rightarrow> [WriteJSON 404 (JError err)]
           | Inr rule \<Rightarrow>
               [WriteJSON 200 (JRule (makeRoutingRuleResp d (RtKey ctx) rule qSummary))]))"

definition getRoute :: "Deps \<Rightarrow> Hypervisor \<Rightarrow> Request \<Rightarrow> event list" where
  "getRoute d hv = withCtx (routeCtx d hv) (getRoute_h d)"

definition deleteRoute_h :: handlerFunc where
  "deleteRoute_h r ctx =
     Call (PK (Addr (Conn ctx))) (RemoveRoutingRule_call (RtKey ctx)) #
     (case RPC_RemoveRoutingRule (RPC (Conn ctx)) (RtKey ctx) of
        Some err \<Rightarrow> [WriteJSON 404 (JError err)]
      | None \<Rightarrow> [WriteJSON 200 (JBool True)])"

definition deleteRoute :: "Deps \<Rightarrow> Hypervisor \<Rightarrow> Request \<Rightarrow> event list" where
  "deleteRoute d hv = withCtx (routeCtx d hv) deleteRoute_h"

section \<open>The health probe\<close>

text \<open>\<^verbatim>\<open>healthTimeout = 5 * time.Second\<close>, in nanoseconds as \<^verbatim>\<open>time.Duration\<close> counts.\<close>

definition healthTimeout :: nat where
  "healthTimeout = 5 * 1000000000"

text \<open>The two cases of the \<^verbatim>\<open>select\<close> of \<^verbatim>\<open>getHealth\<close> and what each writes.\<close>

datatype select_case = From_resCh | From_tCh

definition on_resCh :: "error + HealthInfo \<Rightarrow> event" where
  "on_resCh res =
     (case res of
        Inl err \<Rightarrow> WriteJSON 200 (JHealth \<lparr>Status = 500, HealthInfo = None\<rparr>)
      | Inr h \<Rightarrow> WriteJSON 200 (JHealth \<lparr>Status = 200, HealthInfo = Some h\<rparr>))"

definition on_tCh :: event where
  "on_tCh = WriteJSON 408 (JHealth \<lparr>Status = 408, HealthInfo = None\<rparr>)"

text \<open>
  The \<^verbatim>\<open>select\<close> blocks until one of its channels is ready and takes that case.
  The timer channel is ready \<open>healthTimeout\<close> after \<^verbatim>\<open>time.After\<close>; the result channel is
  ready when \<^verbatim>\<open>Health()\<close> has returned in the goroutine, \<open>lat\<close> nanoseconds after the
  same instant, or never (\<open>None\<close>). When both are ready at once Go chooses one of
  the cases that can proceed at random; \<open>pick\<close> is the case it takes then.
\<close>

definition select_health :: "nat option \<Rightarrow> select_case \<Rightarrow> select_case" where
  "select_health lat pick =
     (case lat of
        None \<Rightarrow> From_tCh
      | Some t \<Rightarrow>
          if t < healthTimeout then From_resCh
          else if healthTimeout < t then From_tCh
          else pick)"

definition getHealth_h :: "nat option \<Rightarrow> select_case \<Rightarrow> handlerFunc" where
  "getHealth_h lat pick r ctx =
     Call (PK (Addr (Conn ctx))) Health_call #
     (case select_health lat pick of
        From_resCh \<Rightarrow> [on_resCh (RPC_Health (RPC (Conn ctx)))]
      | From_tCh \<Rightarrow> [on_tCh])"

definition getHealth ::
  "Deps \<Rightarrow> Hypervisor \<Rightarrow> nat option \<Rightarrow> select_case \<Rightarrow> Request \<Rightarrow> event list"
where
  "getHealth d hv lat pick = withCtx (visorCtx d hv) (getHealth_h lat pick)"

text \<open>
  The handler and its goroutine, step by step. The goroutine is in \<^verbatim>\<open>Health()\<close>
  (\<open>Calling\<close>), at the send \<^verbatim>\<open>resCh <- healthRes{hi, err}\<close> (\<open>Sending\<close>) or past it
  (\<open>Exited\<close>); the handler is in the \<^verbatim>\<open>select\<close> (\<open>Selecting\<close>) or has written its
  response and returned (\<open>Returned\<close>). \<^verbatim>\<open>resCh\<close> is made without a buffer, so the send
  completes only together with the receive of the \<^verbatim>\<open>select\<close>; no other statement
  receives from \<^verbatim>\<open>resCh\<close>.
\<close>

datatype worker = Calling | Sending "error + HealthInfo" | Exited

datatype waiter = Selecting | Returned event

inductive health_step :: "error + HealthInfo \<Rightarrow> waiter \<times> worker \<Rightarrow> waiter \<times> worker \<Rightarrow> bool"
  for res :: "error + HealthInfo"
where
  call_returns: "health_step res (h, Calling) (h, Sending res)"
| receive: "health_step res (Selecting, Sending x) (Returned (on_resCh x), Exited)"
| timer_fires: "health_step res (Selecting, w) (Returned on_tCh, w)"

section \<open>The summary of all visors\<close>

text \<open>
  What one goroutine of \<^verbatim>\<open>getVisors\<close> stores in its slot, and the zero
  \<^verbatim>\<open>summaryResp\<close> that \<^verbatim>\<open>make\<close> fills the slice with.
\<close>

definition summary_slot :: "Deps \<Rightarrow> PubKey \<Rightarrow> VisorConn \<Rightarrow> summaryResp" where
  "summary_slot d pk c =
     (case RPC_Summary (RPC c) of
        Inl err \<Rightarrow>
          \<lparr>TCPAddr = Addr_String d (Addr c), Online = False,
           Summary = Some \<lparr>PubKey = pk, Payload = []\<rparr>\<rparr>
      | Inr summary \<Rightarrow>
          \<lparr>TCPAddr = Addr_String d (Addr c), Online = True, Summary = Some summary\<rparr>)"

definition zero_summaryResp :: summaryResp where
  "zero_summaryResp = \<lparr>TCPAddr = [], Online = False, Summary = None\<rparr>"

text \<open>
  Go leaves the order in which \<^verbatim>\<open>range\<close> visits a map unspecified, and it may differ
  from one loop to the next. A run of \<^verbatim>\<open>getVisors\<close> therefore has the order \<open>iter\<close> in
  which its loop visits the keys: any list of the keys of the map without
  repetition.
\<close>

definition range_order :: "Hypervisor \<Rightarrow> PubKey list \<Rightarrow> bool" where
  "range_order hv iter \<longleftrightarrow> distinct iter \<and> set iter = dom (visors hv)"

definition range_entries :: "Hypervisor \<Rightarrow> PubKey list \<Rightarrow> (PubKey \<times> VisorConn) list" where
  "range_entries hv iter = List.map_filter (\<lambda>pk. map_option (Pair pk) (visors hv pk)) iter"

text \<open>
  The goroutines. The loop starts goroutine \<open>i\<close> for the \<open>i\<close>-th entry visited. A
  goroutine calls \<^verbatim>\<open>Summary()\<close>, stores its slot \<^verbatim>\<open>summaries[i]\<close> and calls
  \<^verbatim>\<open>wg.Done()\<close>; its store touches no slot but its own and is not an event, so a
  goroutine is taken as one step, its call issued and returned. The schedule \<open>sched\<close>
  lists the goroutines in the order in which they take that step; a goroutine runs
  once, and one that the schedule leaves out has a call that never returns. The state
  is the events so far, the slice, the counter of the wait group and the goroutines
  that are done.
\<close>

fun run_tasks ::
  "Deps \<Rightarrow> (PubKey \<times> VisorConn) list \<Rightarrow> nat list
     \<Rightarrow> event list \<times> summaryResp list \<times> nat \<times> nat set
     \<Rightarrow> event list \<times> summaryResp list \<times> nat \<times> nat set"
where
  "run_tasks d ents [] st = st"
| "run_tasks d ents (j # js) (evs, summaries, wg, fin) =
     (if j < length ents \<and> j \<notin> fin
      then run_tasks d ents js
             (evs @ [Call (PK (Addr (snd (ents ! j)))) Summary_call],
              summaries[j := summary_slot d (fst (ents ! j)) (snd (ents ! j))],
              wg - 1, insert j fin)
      else run_tasks d ents js (evs, summaries, wg, fin))"

text \<open>
  \<^verbatim>\<open>getVisors\<close>: the read lock, the slice of \<^verbatim>\<open>len(hv.visors)\<close> zero values (the
  number of entries the loop visits), the goroutines, \<^verbatim>\<open>wg.Wait()\<close>, the release of
  the lock and the response. \<open>None\<close> is a run in which \<^verbatim>\<open>wg.Wait()\<close> does not
  return: the counter is not back at zero.
\<close>

definition getVisors :: "Deps \<Rightarrow> Hypervisor \<Rightarrow> PubKey list \<Rightarrow> nat list \<Rightarrow> event list option" where
  "getVisors d hv iter sched =
     (let ents = range_entries hv iter;
          n = length ents
      in case run_tasks d ents sched ([RLock], replicate n zero_summaryResp, n, {}) of
           (evs, summaries, wg, fin) \<Rightarrow>
             if wg = 0 then Some (evs @ [RUnlock, WriteJSON 200 (JSummaries summaries)])
             else None)"

section \<open>Reading a list of events\<close>

text \<open>
  The calls issued while the mutex is held: \<open>n\<close> counts the holds taken and not
  yet released.
\<close>

fun calls_while_locked :: "nat \<Rightarrow> event list \<Rightarrow> event list" where
  "calls_while_locked n [] = []"
| "calls_while_locked n (Lock # es) = calls_while_locked (Suc n) es"
| "calls_while_locked n (RLock # es) = calls_while_locked (Suc n) es"
| "calls_while_locked n (Unlock # es) = calls_while_locked (n - 1) es"
| "calls_while_locked n (RUnlock # es) = calls_while_locked (n - 1) es"
| "calls_while_locked n (Call pk m # es) =
     (if 0 < n then Call pk m # calls_while_locked n es else calls_while_locked n es)"
| "calls_while_locked n (e # es) = calls_while_locked n es"

text \<open>The calls of a list of events, and its responses.\<close>

fun calls :: "event list \<Rightarrow> (PubKey \<times> rpc) list" where
  "calls [] = []"
| "calls (Call pk m # es) = (pk, m) # calls es"
| "calls (e # es) = calls es"

fun responses :: "event list \<Rightarrow> (nat \<times> json) list" where
  "responses [] = []"
| "responses (WriteJSON code v # es) = (code, v) # responses es"
| "responses (e # es) = responses es"

text \<open>Whether the \<^verbatim>\<open>Summary()\<close> call of the visor registered under a key fails.\<close>

definition Summary_fails :: "Hypervisor \<Rightarrow> PubKey \<Rightarrow> bool" where
  "Summary_fails hv pk \<longleftrightarrow>
     (case visors hv pk of None \<Rightarrow> False | Some c \<Rightarrow> isl (RPC_Summary (RPC c)))"

section \<open>A small fleet to evaluate the handlers on\<close>

text \<open>
  One instance of the functions taken from other packages, and three visors
  \<open>0a\<close>, \<open>0b\<close> and \<open>0c\<close> accepted in this order, of which \<open>0b\<close> fails every call.
\<close>

definition demo_deps :: Deps where
  "demo_deps =
     \<lparr>UnmarshalText = (\<lambda>s. if s \<noteq> [] \<and> list_all (\<lambda>c. c \<in> set ''0123456789abcdef'') s
                            then Inr s else Inl ''invalid public key''),
      uuid_Parse = (\<lambda>s. if length s = 36 then Inr s else Inl ''invalid UUID length''),
      ErrNotFound = ''not found'',
      Addr_String = (\<lambda>a. PK a),
      time_Parse = (\<lambda>s. Inl ''cannot parse time''),
      TimestampFromLog = (\<lambda>l. take 4 (drop 1 l)),
      BoolFromQuery = (\<lambda>r key defaultVal.
         if Query_Get r key = [] then Inr defaultVal
         else if Query_Get r key \<in> set [''true'', ''on'', ''1''] then Inr True
         else if Query_Get r key \<in> set [''false'', ''off'', ''0''] then Inr False
         else Inl ''invalid query value''),
      Rule_Summary = (\<lambda>rule. ''summary'')\<rparr>"

definition up_client :: "string \<Rightarrow> RPCClient" where
  "up_client pk =
     \<lparr>RPC_Summary = Inr \<lparr>PubKey = pk, Payload = [''skychat'']\<rparr>,
      RPC_Health = Inr [(''transport_discovery'', 200), (''route_finder'', 200), (''setup_node'', 200)],
      RPC_Apps = Inr [\<lparr>Name = ''skychat'', AutoStart = True\<rparr>,
                      \<lparr>Name = ''skysocks'', AutoStart = False\<rparr>],
      RPC_LogsSince = (\<lambda>t name. if name = ''skychat'' then Inr [''[t001] up'', ''[t002] hello''] else Inr []),
      RPC_Transport = (\<lambda>tid. Inl ''not found''),
      RPC_RoutingRule = (\<lambda>rid. if rid = 1 then Inr [1, 171] else Inl ''routing rule not found''),
      RPC_RemoveRoutingRule = (\<lambda>rid. None)\<rparr>"

definition down_client :: RPCClient where
  "down_client =
     \<lparr>RPC_Summary = Inl ''connection is shut down'',
      RPC_Health = Inl ''connection is shut down'',
      RPC_Apps = Inl ''connection is shut down'',
      RPC_LogsSince = (\<lambda>t name. Inl ''connection is shut down''),
      RPC_Transport = (\<lambda>tid. Inl ''connection is shut down''),
      RPC_RoutingRule = (\<lambda>rid. Inl ''connection is shut down''),
      RPC_RemoveRoutingRule = (\<lambda>rid. Some ''connection is shut down'')\<rparr>"

definition demo_streams :: "(Addr \<times> RPCClient) list" where
  "demo_streams =
     [(\<lparr>PK = ''0a'', Port = 1\<rparr>, up_client ''0a''),
      (\<lparr>PK = ''0b'', Port = 2\<rparr>, down_client),
      (\<lparr>PK = ''0c'', Port = 3\<rparr>, up_client ''0c'')]"

definition demo_hv :: Hypervisor where
  "demo_hv = fst (snd (ServeRPC 22 New (map Inr demo_streams)))"

definition demo_request :: "(string \<times> string) list \<Rightarrow> Request" where
  "demo_request params = \<lparr>URLParams = map_of params, Query = Map.empty\<rparr>"

section \<open>Registry: last writer wins\<close>

lemma ServeRPC_Inr_visors:
  "visors (fst (snd (ServeRPC p hv (map Inr ss)))) =
     visors hv ++ map_of (rev (map (\<lambda>s. (PK (fst s), accepted p s)) ss))"
proof (induction ss arbitrary: hv)
  case Nil
  show ?case by simp
next
  case (Cons s ss)
  have "(visors hv)(PK (fst s) \<mapsto> accepted p s) = visors hv ++ [PK (fst s) \<mapsto> accepted p s]"
    by simp
  then show ?case
    by (simp add: Cons.IH split_beta del: map_add_upd)
qed

text \<open>
  C1. For every sequence of accepted streams, the lookup of the public key of a
  stream that no later stream of the sequence shares returns the handle built from
  that stream, whatever the registry held under the key before (the earlier handle
  is replaced, nothing of it is kept); and in a registry that started empty the
  lookup of a key that no stream carried returns not-found, a value and not an
  error.
\<close>

theorem registry_last_writer_wins:
  "(PK (fst s) \<notin> (\<lambda>s'. PK (fst s')) ` set after \<longrightarrow>
      snd (visorConn (fst (snd (ServeRPC p hv (map Inr (before @ s # after))))) (PK (fst s)))
        = Some (accepted p s))
   \<and> (k \<notin> (\<lambda>s'. PK (fst s')) ` set ss \<longrightarrow>
      snd (visorConn (fst (snd (ServeRPC p New (map Inr ss)))) k) = None)"
proof (intro conjI impI)
  assume last: "PK (fst s) \<notin> (\<lambda>s'. PK (fst s')) ` set after"
  have "map_of (rev (map (\<lambda>s. (PK (fst s), accepted p s)) after)) (PK (fst s)) = None"
    using last by (simp add: map_of_eq_None_iff image_image)
  then show "snd (visorConn (fst (snd (ServeRPC p hv (map Inr (before @ s # after))))) (PK (fst s)))
      = Some (accepted p s)"
    by (simp only: visorConn_def ServeRPC_Inr_visors) (simp add: map_add_def)
next
  assume fresh: "k \<notin> (\<lambda>s'. PK (fst s')) ` set ss"
  have "map_of (rev (map (\<lambda>s. (PK (fst s), accepted p s)) ss)) k = None"
    using fresh by (simp add: map_of_eq_None_iff image_image)
  then show "snd (visorConn (fst (snd (ServeRPC p New (map Inr ss)))) k) = None"
    by (simp only: visorConn_def ServeRPC_Inr_visors) (simp add: New_def)
qed

theorem registry_last_writer_wins_witness:
  "PK (fst (\<lparr>PK = ''0a'', Port = 9\<rparr>, down_client))
      \<notin> (\<lambda>s'. PK (fst s')) ` set [(\<lparr>PK = ''0c'', Port = 3\<rparr>, up_client ''0c'')]
   \<and> snd (visorConn
          (fst (snd (ServeRPC 22 New (map Inr
             ([(\<lparr>PK = ''0a'', Port = 1\<rparr>, up_client ''0a''),
               (\<lparr>PK = ''0b'', Port = 2\<rparr>, down_client)]
              @ (\<lparr>PK = ''0a'', Port = 9\<rparr>, down_client)
              # [(\<lparr>PK = ''0c'', Port = 3\<rparr>, up_client ''0c'')])))))
          ''0a'')
       = Some \<lparr>Addr = \<lparr>PK = ''0a'', Port = 9\<rparr>, RPC = down_client,
               PtyUI = Some \<lparr>PK = ''0a'', Port = 22\<rparr>\<rparr>
   \<and> ''0d'' \<notin> (\<lambda>s'. PK (fst s')) ` set demo_streams
   \<and> snd (visorConn (fst (snd (ServeRPC 22 New (map Inr demo_streams)))) ''0d'') = None"
  using registry_last_writer_wins
    [of "(\<lparr>PK = ''0a'', Port = 9\<rparr>, down_client)"
        "[(\<lparr>PK = ''0c'', Port = 3\<rparr>, up_client ''0c'')]" 22 New
        "[(\<lparr>PK = ''0a'', Port = 1\<rparr>, up_client ''0a''),
          (\<lparr>PK = ''0b'', Port = 2\<rparr>, down_client)]"
        "''0d''" demo_streams]
  by (simp add: accepted_def demo_streams_def)

section \<open>The resolver chain\<close>

lemmas demo_defs = demo_deps_def up_client_def down_client_def demo_streams_def demo_hv_def
  demo_request_def New_def accepted_def

lemma visorCtx_None:
  "snd (visorCtx d hv r) = None \<Longrightarrow>
     (\<exists>err. fst (visorCtx d hv r) = [WriteJSON 400 (JError err)])
   \<or> (\<exists>msg. fst (visorCtx d hv r) = [RLock, RUnlock, WriteJSON 404 (JError msg)])"
  by (auto simp: visorCtx_def visorConn_def split: sum.splits option.splits)

lemma visorCtx_Some:
  "snd (visorCtx d hv r) = Some ctx \<Longrightarrow>
     fst (visorCtx d hv r) = [RLock, RUnlock] \<and> App ctx = None \<and> Tp ctx = None"
  by (auto simp: visorCtx_def visorConn_def split: sum.splits option.splits)

lemma stage_after_node_failure:
  assumes "snd (visorCtx d hv r) = None"
  shows "withCtx (appCtx d hv) h r = fst (visorCtx d hv r)"
    and "withCtx (tpCtx d hv) h r = fst (visorCtx d hv r)"
    and "withCtx (routeCtx d hv) h r = fst (visorCtx d hv r)"
  using assms
  by (cases "visorCtx d hv r"; simp add: withCtx_def appCtx_def tpCtx_def routeCtx_def)+

text \<open>
  C5. When the node stage fails, on a malformed public key (400) or on one the
  registry does not hold (404), every handler built on the application, transport or
  route stage produces exactly the events of the node stage: one response, written
  by the node stage, no call on any RPC client, and nothing of the handler \<open>h\<close>,
  whatever \<open>h\<close> is. When the node stage succeeds and the transport ID is malformed, the
  handler built on the transport stage responds 400 with the parse error and issues
  no call, again whatever \<open>h\<close> is.
\<close>

theorem resolver_chain_short_circuit:
  "(snd (visorCtx d hv r) = None \<longrightarrow>
      withCtx (appCtx d hv) h r = fst (visorCtx d hv r)
    \<and> withCtx (tpCtx d hv) h r = fst (visorCtx d hv r)
    \<and> withCtx (routeCtx d hv) h r = fst (visorCtx d hv r)
    \<and> calls (fst (visorCtx d hv r)) = []
    \<and> ((\<exists>e. pkFromParam d r ''pk'' = Inl e
              \<and> responses (fst (visorCtx d hv r)) = [(400, JError e)])
       \<or> (\<exists>pk msg. pkFromParam d r ''pk'' = Inr pk \<and> visors hv pk = None
              \<and> responses (fst (visorCtx d hv r)) = [(404, JError msg)])))
 \<and> (snd (visorCtx d hv r) = Some ctx \<and> uuidFromParam d r ''tid'' = Inl err \<longrightarrow>
      responses (withCtx (tpCtx d hv) h r) = [(400, JError err)]
    \<and> calls (withCtx (tpCtx d hv) h r) = [])"
proof (intro conjI impI)
  assume n: "snd (visorCtx d hv r) = None"
  show "withCtx (appCtx d hv) h r = fst (visorCtx d hv r)"
    and "withCtx (tpCtx d hv) h r = fst (visorCtx d hv r)"
    and "withCtx (routeCtx d hv) h r = fst (visorCtx d hv r)"
    by (rule stage_after_node_failure[OF n])+
  show "calls (fst (visorCtx d hv r)) = []"
    using visorCtx_None[OF n] by auto
  show "(\<exists>e. pkFromParam d r ''pk'' = Inl e
              \<and> responses (fst (visorCtx d hv r)) = [(400, JError e)])
       \<or> (\<exists>pk msg. pkFromParam d r ''pk'' = Inr pk \<and> visors hv pk = None
              \<and> responses (fst (visorCtx d hv r)) = [(404, JError msg)])"
    using n by (auto simp: visorCtx_def visorConn_def split: sum.splits option.splits)
next
  assume a: "snd (visorCtx d hv r) = Some ctx \<and> uuidFromParam d r ''tid'' = Inl err"
  then have tp: "withCtx (tpCtx d hv) h r = [RLock, RUnlock, WriteJSON 400 (JError err)]"
    using visorCtx_Some[of d hv r ctx]
    by (cases "visorCtx d hv r") (simp add: withCtx_def tpCtx_def)
  show "responses (withCtx (tpCtx d hv) h r) = [(400, JError err)]"
    by (simp add: tp)
  show "calls (withCtx (tpCtx d hv) h r) = []"
    by (simp add: tp)
qed

theorem resolver_chain_short_circuit_witness:
  "snd (visorCtx demo_deps demo_hv (demo_request [(''pk'', ''0d''), (''app'', ''skychat'')])) = None
   \<and> withCtx (appCtx demo_deps demo_hv) (appLogsSince_h demo_deps)
         (demo_request [(''pk'', ''0d''), (''app'', ''skychat'')])
       = [RLock, RUnlock,
          WriteJSON 404 (JError (''visor of pk '' @ [CHR 0x27] @ ''0d'' @ [CHR 0x27] @ '' not found''))]
   \<and> snd (visorCtx demo_deps demo_hv (demo_request [(''pk'', ''0a''), (''tid'', ''7'')]))
       = Some \<lparr>Conn = accepted 22 (\<lparr>PK = ''0a'', Port = 1\<rparr>, up_client ''0a''),
               App = None, Tp = None, RtKey = 0\<rparr>
   \<and> uuidFromParam demo_deps (demo_request [(''pk'', ''0a''), (''tid'', ''7'')]) ''tid''
       = Inl ''invalid UUID length''
   \<and> responses (withCtx (tpCtx demo_deps demo_hv) (\<lambda>r ctx. [WriteJSON 200 (JTransport (Tp ctx))])
         (demo_request [(''pk'', ''0a''), (''tid'', ''7'')]))
       = [(400, JError ''invalid UUID length'')]
   \<and> calls (withCtx (tpCtx demo_deps demo_hv) (\<lambda>r ctx. [WriteJSON 200 (JTransport (Tp ctx))])
         (demo_request [(''pk'', ''0a''), (''tid'', ''7'')])) = []"
proof -
  let ?r1 = "demo_request [(''pk'', ''0d''), (''app'', ''skychat'')]"
  let ?r2 = "demo_request [(''pk'', ''0a''), (''tid'', ''7'')]"
  let ?ctx = "\<lparr>Conn = accepted 22 (\<lparr>PK = ''0a'', Port = 1\<rparr>, up_client ''0a''),
               App = None, Tp = None, RtKey = 0\<rparr>"
  have v1: "visorCtx demo_deps demo_hv ?r1
      = ([RLock, RUnlock,
          WriteJSON 404 (JError (''visor of pk '' @ [CHR 0x27] @ ''0d'' @ [CHR 0x27] @ '' not found''))],
         None)"
    by (simp add: visorCtx_def visorConn_def pkFromParam_def URLParam_def demo_defs)
  have v2: "snd (visorCtx demo_deps demo_hv ?r2) = Some ?ctx"
    by (simp add: visorCtx_def visorConn_def pkFromParam_def URLParam_def demo_defs)
  have u2: "uuidFromParam demo_deps ?r2 ''tid'' = Inl ''invalid UUID length''"
    by (simp add: uuidFromParam_def URLParam_def demo_deps_def demo_request_def)
  show ?thesis
    using resolver_chain_short_circuit
            [of demo_deps demo_hv ?r1 "appLogsSince_h demo_deps"]
          resolver_chain_short_circuit
            [of demo_deps demo_hv ?r2 "\<lambda>r ctx. [WriteJSON 200 (JTransport (Tp ctx))]" ?ctx
                "''invalid UUID length''"]
          v1 v2 u2
    by simp
qed

text \<open>
  C6. At the transport stage, after the node stage succeeded and the transport ID
  parsed, an error of the \<^verbatim>\<open>Transport\<close> call whose text is that of
  \<^verbatim>\<open>visor.ErrNotFound\<close> gives the response 404 with the message naming the transport,
  and any other error gives 500 with the error itself; in both cases the stage stops
  the request.
\<close>

theorem transport_stage_error_mapping:
  "snd (visorCtx d hv r) = Some ctx \<Longrightarrow> uuidFromParam d r ''tid'' = Inr tid \<Longrightarrow>
   RPC_Transport (RPC (Conn ctx)) tid = Inl err \<Longrightarrow>
     snd (tpCtx d hv r) = None
   \<and> responses (fst (tpCtx d hv r)) =
       [if err = ErrNotFound d
        then (404, JError (''transport of ID '' @ tid @ '' is not found''))
        else (500, JError err)]"
  using visorCtx_Some[of d hv r ctx]
  by (cases "visorCtx d hv r") (simp add: tpCtx_def)

theorem transport_stage_error_mapping_witness:
  "responses (fst (tpCtx demo_deps demo_hv
      (demo_request [(''pk'', ''0a''), (''tid'', ''123e4567-e89b-12d3-a456-426614174000'')])))
     = [(404, JError ''transport of ID 123e4567-e89b-12d3-a456-426614174000 is not found'')]
   \<and> responses (fst (tpCtx demo_deps demo_hv
      (demo_request [(''pk'', ''0b''), (''tid'', ''123e4567-e89b-12d3-a456-426614174000'')])))
     = [(500, JError ''connection is shut down'')]"
proof -
  let ?tid = "''123e4567-e89b-12d3-a456-426614174000''"
  let ?ra = "demo_request [(''pk'', ''0a''), (''tid'', ?tid)]"
  let ?rb = "demo_request [(''pk'', ''0b''), (''tid'', ?tid)]"
  let ?ca = "\<lparr>Conn = accepted 22 (\<lparr>PK = ''0a'', Port = 1\<rparr>, up_client ''0a''),
              App = None, Tp = None, RtKey = 0\<rparr>"
  let ?cb = "\<lparr>Conn = accepted 22 (\<lparr>PK = ''0b'', Port = 2\<rparr>, down_client),
              App = None, Tp = None, RtKey = 0\<rparr>"
  have va: "snd (visorCtx demo_deps demo_hv ?ra) = Some ?ca"
    by (simp add: visorCtx_def visorConn_def pkFromParam_def URLParam_def demo_defs)
  have vb: "snd (visorCtx demo_deps demo_hv ?rb) = Some ?cb"
    by (simp add: visorCtx_def visorConn_def pkFromParam_def URLParam_def demo_defs)
  have ua: "uuidFromParam demo_deps ?ra ''tid'' = Inr ?tid"
    by (simp add: uuidFromParam_def URLParam_def demo_deps_def demo_request_def)
  have ub: "uuidFromParam demo_deps ?rb ''tid'' = Inr ?tid"
    by (simp add: uuidFromParam_def URLParam_def demo_deps_def demo_request_def)
  have ta: "RPC_Transport (RPC (Conn ?ca)) ?tid = Inl ''not found''"
    by (simp add: accepted_def up_client_def)
  have tb: "RPC_Transport (RPC (Conn ?cb)) ?tid = Inl ''connection is shut down''"
    by (simp add: accepted_def down_client_def)
  show ?thesis
    using transport_stage_error_mapping[OF va ua ta] transport_stage_error_mapping[OF vb ub tb]
    by (simp add: demo_deps_def)
qed

section \<open>Handlers\<close>

lemma appCtx_Some:
  "snd (appCtx d hv r) = Some ctx \<Longrightarrow>
     fst (appCtx d hv r) = [RLock, RUnlock, Call (PK (Addr (Conn ctx))) Apps_call]
   \<and> (\<exists>a. App ctx = Some a \<and> Name a = URLParam r ''app'')"
proof -
  assume a: "snd (appCtx d hv r) = Some ctx"
  obtain evs c where v: "visorCtx d hv r = (evs, c)" by (cases "visorCtx d hv r")
  with a obtain ctx0 where c: "c = Some ctx0"
    by (cases c) (simp_all add: appCtx_def)
  have evs: "evs = [RLock, RUnlock]" using visorCtx_Some[of d hv r ctx0] v c by simp
  show ?thesis
    using a v c evs
    by (auto simp: appCtx_def Let_def find_Some_iff split: sum.splits option.splits)
qed

text \<open>
  C10. Behind a successful application stage, when the \<^verbatim>\<open>LogsSince\<close> call succeeds,
  the handler of the application logs writes one response: 500 with the error
  \<open>no new available logs\<close> when the list of logs is empty, and otherwise 200 with the
  logs and the timestamp of the last entry.
\<close>

theorem app_logs_empty_is_an_error:
  "snd (appCtx d hv r) = Some ctx \<Longrightarrow> App ctx = Some a \<Longrightarrow>
   RPC_LogsSince (RPC (Conn ctx)) (since_time d r) (Name a) = Inr logs \<Longrightarrow>
     responses (appLogsSince d hv r) =
       [if logs = [] then (500, JError ''no new available logs'')
        else (200, JLogs \<lparr>LastLogTimestamp = TimestampFromLog d (last logs), Logs = logs\<rparr>)]"
proof -
  assume a: "snd (appCtx d hv r) = Some ctx" and app: "App ctx = Some a"
    and logs: "RPC_LogsSince (RPC (Conn ctx)) (since_time d r) (Name a) = Inr logs"
  have tr: "appLogsSince d hv r = fst (appCtx d hv r) @ appLogsSince_h d r ctx"
    using a by (cases "appCtx d hv r") (simp add: appLogsSince_def withCtx_def)
  have h: "responses (appLogsSince_h d r ctx) =
       [if logs = [] then (500, JError ''no new available logs'')
        else (200, JLogs \<lparr>LastLogTimestamp = TimestampFromLog d (last logs), Logs = logs\<rparr>)]"
    using app logs by (simp add: appLogsSince_h_def Let_def last_conv_nth)
  show ?thesis
    using appCtx_Some[OF a] h by (simp add: tr)
qed

theorem app_logs_empty_is_an_error_witness:
  "responses (appLogsSince demo_deps demo_hv
      (demo_request [(''pk'', ''0a''), (''app'', ''skysocks'')]))
     = [(500, JError ''no new available logs'')]
   \<and> responses (appLogsSince demo_deps demo_hv
      (demo_request [(''pk'', ''0a''), (''app'', ''skychat'')]))
     = [(200, JLogs \<lparr>LastLogTimestamp = ''t002'', Logs = [''[t001] up'', ''[t002] hello'']\<rparr>)]"
proof -
  let ?r1 = "demo_request [(''pk'', ''0a''), (''app'', ''skysocks'')]"
  let ?r2 = "demo_request [(''pk'', ''0a''), (''app'', ''skychat'')]"
  let ?c1 = "\<lparr>Conn = accepted 22 (\<lparr>PK = ''0a'', Port = 1\<rparr>, up_client ''0a''),
              App = Some \<lparr>Name = ''skysocks'', AutoStart = False\<rparr>, Tp = None, RtKey = 0\<rparr>"
  let ?c2 = "\<lparr>Conn = accepted 22 (\<lparr>PK = ''0a'', Port = 1\<rparr>, up_client ''0a''),
              App = Some \<lparr>Name = ''skychat'', AutoStart = True\<rparr>, Tp = None, RtKey = 0\<rparr>"
  have a1: "snd (appCtx demo_deps demo_hv ?r1) = Some ?c1"
    by (simp add: appCtx_def visorCtx_def visorConn_def pkFromParam_def URLParam_def Let_def
        demo_defs)
  have a2: "snd (appCtx demo_deps demo_hv ?r2) = Some ?c2"
    by (simp add: appCtx_def visorCtx_def visorConn_def pkFromParam_def URLParam_def Let_def
        demo_defs)
  have l1: "RPC_LogsSince (RPC (Conn ?c1)) (since_time demo_deps ?r1)
              (Name \<lparr>Name = ''skysocks'', AutoStart = False\<rparr>) = Inr []"
    by (simp add: accepted_def up_client_def)
  have l2: "RPC_LogsSince (RPC (Conn ?c2)) (since_time demo_deps ?r2)
              (Name \<lparr>Name = ''skychat'', AutoStart = True\<rparr>)
            = Inr [''[t001] up'', ''[t002] hello'']"
    by (simp add: accepted_def up_client_def)
  show ?thesis
    using app_logs_empty_is_an_error[OF a1 _ l1] app_logs_empty_is_an_error[OF a2 _ l2]
    by (simp add: demo_deps_def)
qed

lemma getHealth_Some:
  "snd (visorCtx d hv r) = Some ctx \<Longrightarrow>
     getHealth d hv lat pick r = [RLock, RUnlock] @ getHealth_h lat pick r ctx"
  using visorCtx_Some[of d hv r ctx]
  by (cases "visorCtx d hv r") (simp add: getHealth_def withCtx_def)

text \<open>
  C4, as the code has it. Behind a successful node stage, with the fixed deadline of
  five seconds: when \<^verbatim>\<open>Health()\<close> returns before the deadline the response is the
  result of the call (status 200 with the health information, or status 500 when the
  call failed); when it returns after the deadline, or never, the response is the
  request timeout 408, whatever the call returns later; the timeout response differs
  from every response to a result, so from that of a failed call. When the call
  returns at the deadline exactly, both channels are ready and the response is that of
  the case the \<^verbatim>\<open>select\<close> takes.
\<close>

theorem health_probe_deadline:
  "snd (visorCtx d hv r) = Some ctx \<Longrightarrow>
     (t < healthTimeout \<longrightarrow>
        responses (getHealth d hv (Some t) pick r) =
          [case RPC_Health (RPC (Conn ctx)) of
             Inl err \<Rightarrow> (200, JHealth \<lparr>Status = 500, HealthInfo = None\<rparr>)
           | Inr h \<Rightarrow> (200, JHealth \<lparr>Status = 200, HealthInfo = Some h\<rparr>)])
   \<and> (healthTimeout < t \<longrightarrow>
        responses (getHealth d hv (Some t) pick r) =
          [(408, JHealth \<lparr>Status = 408, HealthInfo = None\<rparr>)])
   \<and> responses (getHealth d hv None pick r) =
          [(408, JHealth \<lparr>Status = 408, HealthInfo = None\<rparr>)]
   \<and> responses (getHealth d hv (Some healthTimeout) pick r) =
          (case pick of
             From_resCh \<Rightarrow> responses [on_resCh (RPC_Health (RPC (Conn ctx)))]
           | From_tCh \<Rightarrow> [(408, JHealth \<lparr>Status = 408, HealthInfo = None\<rparr>)])
   \<and> responses [on_resCh res] \<noteq> [(408, JHealth \<lparr>Status = 408, HealthInfo = None\<rparr>)]"
  by (simp add: getHealth_Some getHealth_h_def select_health_def on_resCh_def on_tCh_def
      split: sum.splits select_case.splits)

theorem health_probe_deadline_witness:
  "snd (visorCtx demo_deps demo_hv (demo_request [(''pk'', ''0a'')]))
     = Some \<lparr>Conn = accepted 22 (\<lparr>PK = ''0a'', Port = 1\<rparr>, up_client ''0a''),
             App = None, Tp = None, RtKey = 0\<rparr>
   \<and> 4999999999 < healthTimeout
   \<and> responses (getHealth demo_deps demo_hv (Some 4999999999) From_tCh
                  (demo_request [(''pk'', ''0a'')])) =
       [(200, JHealth \<lparr>Status = 200,
           HealthInfo = Some [(''transport_discovery'', 200), (''route_finder'', 200), (''setup_node'', 200)]\<rparr>)]
   \<and> healthTimeout < 10000000000
   \<and> responses (getHealth demo_deps demo_hv (Some 10000000000) From_resCh
                  (demo_request [(''pk'', ''0a'')])) =
       [(408, JHealth \<lparr>Status = 408, HealthInfo = None\<rparr>)]"
proof -
  let ?r = "demo_request [(''pk'', ''0a'')]"
  let ?ctx = "\<lparr>Conn = accepted 22 (\<lparr>PK = ''0a'', Port = 1\<rparr>, up_client ''0a''),
               App = None, Tp = None, RtKey = 0\<rparr>"
  have v: "snd (visorCtx demo_deps demo_hv ?r) = Some ?ctx"
    by (simp add: visorCtx_def visorConn_def pkFromParam_def URLParam_def demo_defs)
  show ?thesis
    using v health_probe_deadline[OF v, of 4999999999 From_tCh]
          health_probe_deadline[OF v, of 10000000000 From_resCh]
    by (simp add: healthTimeout_def accepted_def up_client_def)
qed

text \<open>
  C4 as stated fails at the deadline itself: a call that returns exactly five seconds
  after the timer was started can still be answered with its result, here the health
  information of a visor that is up, and not with the timeout.
\<close>

theorem health_probe_deadline_tie:
  "\<not> 5000000000 < healthTimeout
   \<and> responses (getHealth demo_deps demo_hv (Some 5000000000) From_resCh
                  (demo_request [(''pk'', ''0a'')])) =
       [(200, JHealth \<lparr>Status = 200,
           HealthInfo = Some [(''transport_discovery'', 200), (''route_finder'', 200), (''setup_node'', 200)]\<rparr>)]"
  by (simp add: getHealth_def getHealth_h_def select_health_def on_resCh_def healthTimeout_def
      withCtx_def visorCtx_def visorConn_def pkFromParam_def URLParam_def demo_defs)

lemma health_step_after_return:
  "(health_step res)\<^sup>*\<^sup>* s s' \<Longrightarrow> fst s = Returned ev \<Longrightarrow> snd s \<noteq> Exited \<Longrightarrow>
     fst s' = Returned ev \<and> snd s' \<noteq> Exited"
proof (induction rule: rtranclp_induct)
  case base
  then show ?case by simp
next
  case (step y z)
  then have "fst y = Returned ev" and "snd y \<noteq> Exited" by simp_all
  with step.hyps(2) show ?case
    by (cases rule: health_step.cases) auto
qed

text \<open>
  The two descriptions of the probe agree: what \<open>getHealth_h\<close> writes for a latency
  and a choice of the \<^verbatim>\<open>select\<close> is what the handler has written in a run of the
  steps, and the goroutine of that run is past its send only when the result was
  received.
\<close>

lemma select_health_is_a_run:
  "(health_step res)\<^sup>*\<^sup>* (Selecting, Calling)
     (case select_health lat pick of
        From_resCh \<Rightarrow> (Returned (on_resCh res), Exited)
      | From_tCh \<Rightarrow> (Returned on_tCh, if lat = None then Calling else Sending res))"
proof (cases "select_health lat pick")
  case From_resCh
  have "health_step res (Selecting, Calling) (Selecting, Sending res)"
    by (rule health_step.call_returns)
  moreover have "health_step res (Selecting, Sending res) (Returned (on_resCh res), Exited)"
    by (rule health_step.receive)
  ultimately show ?thesis
    using From_resCh by (simp add: converse_rtranclp_into_rtranclp)
next
  case From_tCh
  have t: "health_step res (Selecting, Calling) (Returned on_tCh, Calling)"
    by (rule health_step.timer_fires)
  have c: "health_step res (Returned on_tCh, Calling) (Returned on_tCh, Sending res)"
    by (rule health_step.call_returns)
  show ?thesis
  proof (cases lat)
    case None
    then show ?thesis using From_tCh t by simp
  next
    case (Some n)
    then show ?thesis
      using From_tCh t c by (simp add: converse_rtranclp_into_rtranclp)
  qed
qed

text \<open>
  C9 on the code. When the timer fires first, the handler returns while the goroutine
  is still in its call; once the call returns, the goroutine is at its send on the
  unbuffered channel with no receiver left, a state with no step at all. No
  execution that continues from the timeout brings the goroutine past its send: it
  does not run to completion and its result is never delivered.
\<close>

theorem health_goroutine_blocked_after_timeout:
  "(health_step res)\<^sup>*\<^sup>* (Selecting, Calling) (Returned on_tCh, Sending res)
   \<and> (\<forall>s'. \<not> health_step res (Returned on_tCh, Sending res) s')
   \<and> (\<forall>s'. (health_step res)\<^sup>*\<^sup>* (Returned on_tCh, Calling) s' \<longrightarrow> snd s' \<noteq> Exited)"
proof (intro conjI allI impI)
  have "health_step res (Selecting, Calling) (Returned on_tCh, Calling)"
    by (rule health_step.timer_fires)
  moreover have "health_step res (Returned on_tCh, Calling) (Returned on_tCh, Sending res)"
    by (rule health_step.call_returns)
  ultimately show "(health_step res)\<^sup>*\<^sup>* (Selecting, Calling) (Returned on_tCh, Sending res)"
    by (meson rtranclp.rtrancl_into_rtrancl rtranclp.rtrancl_refl)
next
  fix s'
  show "\<not> health_step res (Returned on_tCh, Sending res) s'"
    by (auto elim: health_step.cases)
next
  fix s'
  assume "(health_step res)\<^sup>*\<^sup>* (Returned on_tCh, Calling) s'"
  from health_step_after_return[OF this, of on_tCh] show "snd s' \<noteq> Exited" by simp
qed

theorem health_goroutine_blocked_after_timeout_witness:
  "(health_step (Inr [(''transport_discovery'', 200), (''route_finder'', 200), (''setup_node'', 200)]))\<^sup>*\<^sup>*
      (Returned on_tCh, Calling)
      (Returned on_tCh, Sending (Inr [(''transport_discovery'', 200), (''route_finder'', 200), (''setup_node'', 200)]))
   \<and> snd (Returned on_tCh,
            Sending (Inr [(''transport_discovery'', 200), (''route_finder'', 200), (''setup_node'', 200)]))
         \<noteq> Exited"
proof -
  let ?res = "Inr [(''transport_discovery'', 200), (''route_finder'', 200), (''setup_node'', 200)]
                :: error + HealthInfo"
  have run: "(health_step ?res)\<^sup>*\<^sup>* (Returned on_tCh, Calling) (Returned on_tCh, Sending ?res)"
    by (rule r_into_rtranclp) (rule health_step.call_returns)
  show ?thesis
    using run health_goroutine_blocked_after_timeout[of ?res] by blast
qed

lemma routeCtx_Some:
  "snd (routeCtx d hv r) = Some ctx \<Longrightarrow> fst (routeCtx d hv r) = [RLock, RUnlock]"
proof -
  assume a: "snd (routeCtx d hv r) = Some ctx"
  obtain evs c where v: "visorCtx d hv r = (evs, c)" by (cases "visorCtx d hv r")
  with a obtain ctx0 where c: "c = Some ctx0"
    by (cases c) (simp_all add: routeCtx_def)
  have evs: "evs = [RLock, RUnlock]" using visorCtx_Some[of d hv r ctx0] v c by simp
  show ?thesis
    using a v c evs by (auto simp: routeCtx_def split: sum.splits)
qed

text \<open>
  C7 on the code. Behind a successful route stage, \<^verbatim>\<open>getRoute\<close> and \<^verbatim>\<open>deleteRoute\<close>
  answer every error of their RPC call with the status 404 of not-found, the error
  text in the body, without comparing the error with any sentinel: an error that is
  not a not-found error is reported as not-found as well.
\<close>

theorem route_handlers_report_every_error_as_not_found:
  "snd (routeCtx d hv r) = Some ctx \<Longrightarrow>
     (BoolFromQuery d r ''summary'' True = Inr q \<and>
      RPC_RoutingRule (RPC (Conn ctx)) (RtKey ctx) = Inl err \<longrightarrow>
        responses (getRoute d hv r) = [(404, JError err)])
   \<and> (RPC_RemoveRoutingRule (RPC (Conn ctx)) (RtKey ctx) = Some err \<longrightarrow>
        responses (deleteRoute d hv r) = [(404, JError err)])"
proof -
  assume a: "snd (routeCtx d hv r) = Some ctx"
  have g: "getRoute d hv r = [RLock, RUnlock] @ getRoute_h d r ctx"
    using a routeCtx_Some[OF a] by (cases "routeCtx d hv r") (simp add: getRoute_def withCtx_def)
  have dl: "deleteRoute d hv r = [RLock, RUnlock] @ deleteRoute_h r ctx"
    using a routeCtx_Some[OF a] by (cases "routeCtx d hv r") (simp add: deleteRoute_def withCtx_def)
  show ?thesis
    by (simp add: g dl getRoute_h_def deleteRoute_h_def)
qed

theorem route_handlers_report_every_error_as_not_found_witness:
  "snd (routeCtx demo_deps demo_hv (demo_request [(''pk'', ''0b''), (''rid'', ''7'')]))
     = Some \<lparr>Conn = accepted 22 (\<lparr>PK = ''0b'', Port = 2\<rparr>, down_client), App = None, Tp = None, RtKey = 7\<rparr>
   \<and> ''connection is shut down'' \<noteq> ErrNotFound demo_deps
   \<and> responses (getRoute demo_deps demo_hv (demo_request [(''pk'', ''0b''), (''rid'', ''7'')]))
       = [(404, JError ''connection is shut down'')]
   \<and> responses (deleteRoute demo_deps demo_hv (demo_request [(''pk'', ''0b''), (''rid'', ''7'')]))
       = [(404, JError ''connection is shut down'')]"
proof -
  have ctx: "snd (routeCtx demo_deps demo_hv (demo_request [(''pk'', ''0b''), (''rid'', ''7'')]))
     = Some \<lparr>Conn = accepted 22 (\<lparr>PK = ''0b'', Port = 2\<rparr>, down_client), App = None, Tp = None, RtKey = 7\<rparr>"
    by (simp add: routeCtx_def visorCtx_def visorConn_def pkFromParam_def ridFromParam_def
        ParseUint32_def digit_def URLParam_def demo_defs)
  show ?thesis
    using ctx route_handlers_report_every_error_as_not_found[OF ctx, of True "''connection is shut down''"]
    by (simp add: demo_deps_def down_client_def accepted_def Query_Get_def demo_request_def)
qed

section \<open>The fan-out\<close>

lemma run_tasks_inv:
  assumes "run_tasks d ents sched (evs, sums, wg, fin) = (evs', sums', wg', fin')"
    and "length sums = length ents" and "fin \<subseteq> {..<length ents}"
    and "wg + card fin = length ents"
  shows "fin' = fin \<union> (set sched \<inter> {..<length ents})
       \<and> length sums' = length ents
       \<and> wg' + card fin' = length ents
       \<and> (\<forall>i<length ents. sums' ! i =
             (if i \<in> fin' - fin then summary_slot d (fst (ents ! i)) (snd (ents ! i))
              else sums ! i))
       \<and> (\<exists>cs. evs' = evs @ cs \<and> list_all (\<lambda>e. \<exists>pk. e = Call pk Summary_call) cs
                \<and> length cs = card (fin' - fin))"
  using assms
proof (induction sched arbitrary: evs sums wg fin)
  case Nil
  then show ?case by simp
next
  case (Cons j js)
  have finite_fin: "finite fin"
    using Cons.prems(3) finite_subset by blast
  show ?case
  proof (cases "j < length ents \<and> j \<notin> fin")
    case True
    let ?evs = "evs @ [Call (PK (Addr (snd (ents ! j)))) Summary_call]"
    let ?sums = "sums[j := summary_slot d (fst (ents ! j)) (snd (ents ! j))]"
    have run: "run_tasks d ents js (?evs, ?sums, wg - 1, insert j fin) = (evs', sums', wg', fin')"
      using Cons.prems(1) True by simp
    have "card (insert j fin) \<le> card {..<length ents}"
      using True Cons.prems(3) by (intro card_mono) auto
    then have "card fin < length ents"
      using True finite_fin by simp
    then have wg: "wg - 1 + card (insert j fin) = length ents"
      using Cons.prems(4) True finite_fin by simp
    have sub: "insert j fin \<subseteq> {..<length ents}"
      using True Cons.prems(3) by simp
    have len: "length ?sums = length ents" using Cons.prems(2) by simp
    from Cons.IH[OF run len sub wg] obtain cs where
      a: "fin' = insert j fin \<union> (set js \<inter> {..<length ents})"
      and b: "length sums' = length ents"
      and c: "wg' + card fin' = length ents"
      and e: "\<forall>i<length ents. sums' ! i =
             (if i \<in> fin' - insert j fin then summary_slot d (fst (ents ! i)) (snd (ents ! i))
              else ?sums ! i)"
      and f: "evs' = ?evs @ cs" "list_all (\<lambda>e. \<exists>pk. e = Call pk Summary_call) cs"
             "length cs = card (fin' - insert j fin)"
      by blast
    have fin'_fin: "finite fin'" using a finite_fin by simp
    have jin: "j \<in> fin'" using a by simp
    have split: "fin' - fin = insert j (fin' - insert j fin)" using True jin by blast
    have "card (insert j (fin' - insert j fin)) = Suc (card (fin' - insert j fin))"
      using fin'_fin by (intro card_insert_disjoint) auto
    then have cardeq: "card (fin' - fin) = Suc (card (fin' - insert j fin))"
      by (simp only: split[symmetric])
    show ?thesis
    proof (intro conjI)
      show "fin' = fin \<union> (set (j # js) \<inter> {..<length ents})"
        unfolding a using True by auto
      show "length sums' = length ents" by (rule b)
      show "wg' + card fin' = length ents" by (rule c)
      show "\<forall>i<length ents. sums' ! i =
             (if i \<in> fin' - fin then summary_slot d (fst (ents ! i)) (snd (ents ! i))
              else sums ! i)"
      proof (intro allI impI)
        fix i assume i: "i < length ents"
        show "sums' ! i =
             (if i \<in> fin' - fin then summary_slot d (fst (ents ! i)) (snd (ents ! i))
              else sums ! i)"
        proof (cases "i = j")
          case True
          have "sums' ! j = ?sums ! j" using e i \<open>i = j\<close> by simp
          then show ?thesis using \<open>i = j\<close> jin \<open>j < length ents \<and> j \<notin> fin\<close> Cons.prems(2)
            by simp
        next
          case False
          then show ?thesis using e i by simp
        qed
      qed
      show "\<exists>cs. evs' = evs @ cs \<and> list_all (\<lambda>e. \<exists>pk. e = Call pk Summary_call) cs
                \<and> length cs = card (fin' - fin)"
        using f cardeq
        by (intro exI[of _ "Call (PK (Addr (snd (ents ! j)))) Summary_call # cs"]) simp
    qed
  next
    case False
    have run: "run_tasks d ents js (evs, sums, wg, fin) = (evs', sums', wg', fin')"
      using Cons.prems(1) False by auto
    have eq: "fin \<union> (set (j # js) \<inter> {..<length ents}) = fin \<union> (set js \<inter> {..<length ents})"
      using False by auto
    show ?thesis
      unfolding eq by (rule Cons.IH[OF run Cons.prems(2) Cons.prems(3) Cons.prems(4)])
  qed
qed

lemma range_entries_eq:
  "set iter \<subseteq> dom (visors hv) \<Longrightarrow>
     range_entries hv iter = map (\<lambda>pk. (pk, the (visors hv pk))) iter"
  by (induction iter) (auto simp: range_entries_def List.map_filter_simps)

lemma getVisors_eq:
  fixes d hv iter sched
  defines "ents \<equiv> range_entries hv iter"
  shows "\<exists>cs. list_all (\<lambda>e. \<exists>pk. e = Call pk Summary_call) cs
            \<and> length cs = card (set sched \<inter> {..<length ents})
            \<and> getVisors d hv iter sched =
                (if {..<length ents} \<subseteq> set sched
                 then Some (RLock # cs @ [RUnlock, WriteJSON 200
                        (JSummaries (map (\<lambda>e. summary_slot d (fst e) (snd e)) ents))])
                 else None)"
proof -
  let ?n = "length ents"
  obtain evs' sums' wg' fin' where
    run: "run_tasks d ents sched ([RLock], replicate ?n zero_summaryResp, ?n, {})
            = (evs', sums', wg', fin')"
    by (metis prod_cases4)
  have inv: "fin' = {} \<union> (set sched \<inter> {..<?n})
       \<and> length sums' = ?n
       \<and> wg' + card fin' = ?n
       \<and> (\<forall>i<?n. sums' ! i =
             (if i \<in> fin' - {} then summary_slot d (fst (ents ! i)) (snd (ents ! i))
              else replicate ?n zero_summaryResp ! i))
       \<and> (\<exists>cs. evs' = [RLock] @ cs \<and> list_all (\<lambda>e. \<exists>pk. e = Call pk Summary_call) cs
                \<and> length cs = card (fin' - {}))"
    by (rule run_tasks_inv[OF run]) simp_all
  then obtain cs where fin': "fin' = set sched \<inter> {..<?n}"
    and len: "length sums' = ?n"
    and wg: "wg' + card fin' = ?n"
    and slots: "\<forall>i<?n. sums' ! i =
             (if i \<in> fin' then summary_slot d (fst (ents ! i)) (snd (ents ! i))
              else replicate ?n zero_summaryResp ! i)"
    and evs: "evs' = RLock # cs" "list_all (\<lambda>e. \<exists>pk. e = Call pk Summary_call) cs"
             "length cs = card fin'"
    by auto
  have sub: "fin' \<subseteq> {..<?n}" using fin' by simp
  have zero: "wg' = 0 \<longleftrightarrow> {..<?n} \<subseteq> set sched"
  proof
    assume "wg' = 0"
    then have "card fin' = card {..<?n}" using wg by simp
    then have "fin' = {..<?n}" using sub by (simp add: card_subset_eq)
    then show "{..<?n} \<subseteq> set sched" using fin' by blast
  next
    assume "{..<?n} \<subseteq> set sched"
    then have "fin' = {..<?n}" using fin' by blast
    then show "wg' = 0" using wg by simp
  qed
  have gv: "getVisors d hv iter sched =
      (if wg' = 0 then Some (evs' @ [RUnlock, WriteJSON 200 (JSummaries sums')]) else None)"
    using run by (simp add: getVisors_def ents_def Let_def)
  have sums: "sums' = map (\<lambda>e. summary_slot d (fst e) (snd e)) ents" if "{..<?n} \<subseteq> set sched"
  proof (rule nth_equalityI)
    show "length sums' = length (map (\<lambda>e. summary_slot d (fst e) (snd e)) ents)"
      using len by simp
  next
    fix i assume "i < length sums'"
    then have i: "i < ?n" using len by simp
    then have "i \<in> fin'" using that fin' by blast
    then show "sums' ! i = map (\<lambda>e. summary_slot d (fst e) (snd e)) ents ! i"
      using slots i by simp
  qed
  show ?thesis
  proof (intro exI[of _ cs] conjI)
    show "list_all (\<lambda>e. \<exists>pk. e = Call pk Summary_call) cs" by (rule evs(2))
    show "length cs = card (set sched \<inter> {..<?n})" using evs(3) fin' by simp
    show "getVisors d hv iter sched =
                (if {..<?n} \<subseteq> set sched
                 then Some (RLock # cs @ [RUnlock, WriteJSON 200
                        (JSummaries (map (\<lambda>e. summary_slot d (fst e) (snd e)) ents))])
                 else None)"
      using gv zero sums evs(1) by simp
  qed
qed

lemma calls_while_locked_Calls:
  "list_all (\<lambda>e. \<exists>pk. e = Call pk Summary_call) cs \<Longrightarrow>
     calls_while_locked (Suc n) (cs @ es) = cs @ calls_while_locked (Suc n) es"
  by (induction cs) auto

lemma calls_Calls:
  "list_all (\<lambda>e. \<exists>pk. e = Call pk Summary_call) cs \<Longrightarrow>
     map (\<lambda>(pk, m). Call pk m) (calls (cs @ es)) = cs @ map (\<lambda>(pk, m). Call pk m) (calls es)"
  by (induction cs) auto

lemma length_calls_Calls:
  "list_all (\<lambda>e. \<exists>pk. e = Call pk Summary_call) cs \<Longrightarrow>
     length (calls (cs @ es)) = length cs + length (calls es)"
  by (induction cs) auto

lemma responses_Calls:
  "list_all (\<lambda>e. \<exists>pk. e = Call pk Summary_call) cs \<Longrightarrow>
     responses (cs @ es) = responses es"
  by (induction cs) auto

lemma demo_hv_visors:
  "visors demo_hv = [''0a'' \<mapsto> accepted 22 (\<lparr>PK = ''0a'', Port = 1\<rparr>, up_client ''0a''),
                     ''0b'' \<mapsto> accepted 22 (\<lparr>PK = ''0b'', Port = 2\<rparr>, down_client),
                     ''0c'' \<mapsto> accepted 22 (\<lparr>PK = ''0c'', Port = 3\<rparr>, up_client ''0c'')]"
  by (simp add: demo_hv_def demo_streams_def New_def)

lemma getVisors_Some:
  assumes "getVisors d hv iter sched = Some evs"
  shows "\<exists>cs. list_all (\<lambda>e. \<exists>pk. e = Call pk Summary_call) cs
            \<and> length cs = length (range_entries hv iter)
            \<and> evs = RLock # cs @ [RUnlock, WriteJSON 200
                  (JSummaries (map (\<lambda>e. summary_slot d (fst e) (snd e)) (range_entries hv iter)))]"
proof -
  let ?n = "length (range_entries hv iter)"
  from getVisors_eq[where d=d and hv=hv and iter=iter and sched=sched] obtain cs where
    cs: "list_all (\<lambda>e. \<exists>pk. e = Call pk Summary_call) cs"
    and len: "length cs = card (set sched \<inter> {..<?n})"
    and gv: "getVisors d hv iter sched =
                (if {..<?n} \<subseteq> set sched
                 then Some (RLock # cs @ [RUnlock, WriteJSON 200
                        (JSummaries (map (\<lambda>e. summary_slot d (fst e) (snd e)) (range_entries hv iter)))])
                 else None)"
    by blast
  have cover: "{..<?n} \<subseteq> set sched"
    using assms gv by (simp split: if_splits)
  then have "set sched \<inter> {..<?n} = {..<?n}" by blast
  then have "length cs = ?n" using len by simp
  then show ?thesis using cs gv cover assms by auto
qed

lemma stage_releases_lock:
  "calls_while_locked 0 (fst (visorCtx d hv r) @ es) = calls_while_locked 0 es"
  "calls_while_locked 0 (fst (appCtx d hv r) @ es) = calls_while_locked 0 es"
  "calls_while_locked 0 (fst (tpCtx d hv r) @ es) = calls_while_locked 0 es"
  "calls_while_locked 0 (fst (routeCtx d hv r) @ es) = calls_while_locked 0 es"
  by (auto simp: visorCtx_def appCtx_def tpCtx_def routeCtx_def visorConn_def Let_def
      split: sum.splits option.splits)

lemma withCtx_calls_while_locked:
  assumes "\<And>es. calls_while_locked 0 (fst (vFunc r) @ es) = calls_while_locked 0 es"
    and "\<And>ctx. calls_while_locked 0 (hFunc r ctx) = []"
  shows "calls_while_locked 0 (withCtx vFunc hFunc r) = []"
proof (cases "vFunc r")
  case (Pair evs c)
  show ?thesis
  proof (cases c)
    case None
    then show ?thesis using assms(1)[of "[]"] Pair by (simp add: withCtx_def)
  next
    case (Some ctx)
    then show ?thesis using assms(1)[of "hFunc r ctx"] assms(2)[of ctx] Pair
      by (simp add: withCtx_def)
  qed
qed

lemma lookup_handlers_call_after_unlock:
  "calls_while_locked 0 (getHealth d hv lat pick r) = []"
  "calls_while_locked 0 (getApp d hv r) = []"
  "calls_while_locked 0 (appLogsSince d hv r) = []"
  "calls_while_locked 0 (getTransport d hv r) = []"
  "calls_while_locked 0 (getRoute d hv r) = []"
  "calls_while_locked 0 (deleteRoute d hv r) = []"
  unfolding getHealth_def getApp_def appLogsSince_def getTransport_def getRoute_def
    deleteRoute_def
  by (rule withCtx_calls_while_locked, rule stage_releases_lock,
      simp add: getHealth_h_def appLogsSince_h_def getRoute_h_def deleteRoute_h_def
        on_resCh_def on_tCh_def Let_def split: sum.splits option.splits select_case.splits)+

text \<open>
  C2 on the code. In every run of \<^verbatim>\<open>getVisors\<close> that returns, each call the run issues,
  one \<^verbatim>\<open>Summary()\<close> per entry of the registry, is issued while the read lock of the
  registry is held: the lock is released only after \<^verbatim>\<open>wg.Wait()\<close>. The handlers that
  go through \<^verbatim>\<open>visorConn\<close> issue none of their calls under the lock
  (\<open>lookup_handlers_call_after_unlock\<close>).
\<close>

theorem getVisors_calls_under_read_lock:
  "getVisors d hv iter sched = Some evs \<Longrightarrow>
     calls_while_locked 0 evs = map (\<lambda>(pk, m). Call pk m) (calls evs)
   \<and> length (calls evs) = length (range_entries hv iter)"
proof -
  assume "getVisors d hv iter sched = Some evs"
  from getVisors_Some[OF this] obtain cs where
    cs: "list_all (\<lambda>e. \<exists>pk. e = Call pk Summary_call) cs"
    and len: "length cs = length (range_entries hv iter)"
    and evs: "evs = RLock # cs @ [RUnlock, WriteJSON 200
                  (JSummaries (map (\<lambda>e. summary_slot d (fst e) (snd e)) (range_entries hv iter)))]"
    by blast
  show ?thesis
    using len by (simp add: evs calls_while_locked_Calls[OF cs] calls_Calls[OF cs]
        length_calls_Calls[OF cs])
qed

theorem getVisors_calls_under_read_lock_witness:
  "getVisors demo_deps demo_hv [''0a'', ''0b'', ''0c''] [2, 0, 1] =
     Some [RLock, Call ''0c'' Summary_call, Call ''0a'' Summary_call, Call ''0b'' Summary_call,
           RUnlock,
           WriteJSON 200 (JSummaries
             [\<lparr>TCPAddr = ''0a'', Online = True,
              Summary = Some \<lparr>PubKey = ''0a'', Payload = [''skychat'']\<rparr>\<rparr>,
              \<lparr>TCPAddr = ''0b'', Online = False,
              Summary = Some \<lparr>PubKey = ''0b'', Payload = []\<rparr>\<rparr>,
              \<lparr>TCPAddr = ''0c'', Online = True,
              Summary = Some \<lparr>PubKey = ''0c'', Payload = [''skychat'']\<rparr>\<rparr>])]
   \<and> calls_while_locked 0
         (the (getVisors demo_deps demo_hv [''0a'', ''0b'', ''0c''] [2, 0, 1])) =
       [Call ''0c'' Summary_call, Call ''0a'' Summary_call, Call ''0b'' Summary_call]"
proof -
  have run: "getVisors demo_deps demo_hv [''0a'', ''0b'', ''0c''] [2, 0, 1] =
     Some [RLock, Call ''0c'' Summary_call, Call ''0a'' Summary_call, Call ''0b'' Summary_call,
           RUnlock,
           WriteJSON 200 (JSummaries
             [\<lparr>TCPAddr = ''0a'', Online = True,
              Summary = Some \<lparr>PubKey = ''0a'', Payload = [''skychat'']\<rparr>\<rparr>,
              \<lparr>TCPAddr = ''0b'', Online = False,
              Summary = Some \<lparr>PubKey = ''0b'', Payload = []\<rparr>\<rparr>,
              \<lparr>TCPAddr = ''0c'', Online = True,
              Summary = Some \<lparr>PubKey = ''0c'', Payload = [''skychat'']\<rparr>\<rparr>])]"
    by (simp add: getVisors_def range_entries_def List.map_filter_simps
        demo_hv_visors summary_slot_def zero_summaryResp_def accepted_def up_client_def
        down_client_def demo_deps_def eval_nat_numeral insert_commute)
  show ?thesis
    using run getVisors_calls_under_read_lock[OF run] by simp
qed

lemma range_order_entries:
  assumes "range_order hv iter"
  shows "map fst (range_entries hv iter) = iter"
    and "length (range_entries hv iter) = card (dom (visors hv))"
    and "\<And>i c. i < length iter \<Longrightarrow> visors hv (iter ! i) = Some c \<Longrightarrow>
            range_entries hv iter ! i = (iter ! i, c)"
proof -
  have sub: "set iter \<subseteq> dom (visors hv)" and d: "distinct iter" and s: "set iter = dom (visors hv)"
    using assms by (simp_all add: range_order_def)
  note eq = range_entries_eq[OF sub]
  show "map fst (range_entries hv iter) = iter"
    by (simp add: eq comp_def)
  show "length (range_entries hv iter) = card (dom (visors hv))"
    using distinct_card[OF d] s by (simp add: eq)
  show "\<And>i c. i < length iter \<Longrightarrow> visors hv (iter ! i) = Some c \<Longrightarrow>
            range_entries hv iter ! i = (iter ! i, c)"
    by (simp add: eq)
qed

lemma offline_count:
  assumes "range_order hv iter"
  shows "length (filter (\<lambda>s. \<not> Online s)
            (map (\<lambda>e. summary_slot d (fst e) (snd e)) (range_entries hv iter)))
         = card {pk. Summary_fails hv pk}"
proof -
  have sub: "set iter \<subseteq> dom (visors hv)" and d: "distinct iter" and s: "set iter = dom (visors hv)"
    using assms by (simp_all add: range_order_def)
  have on: "\<not> Online (summary_slot d pk c) \<longleftrightarrow> isl (RPC_Summary (RPC c))" for pk c
    by (simp add: summary_slot_def split: sum.splits)
  have "filter (\<lambda>s. \<not> Online s) (map (\<lambda>e. summary_slot d (fst e) (snd e)) (range_entries hv iter))
      = map (\<lambda>pk. summary_slot d pk (the (visors hv pk))) (filter (Summary_fails hv) iter)"
    using sub
    by (induction iter) (auto simp: range_entries_eq on Summary_fails_def)
  then have "length (filter (\<lambda>s. \<not> Online s)
            (map (\<lambda>e. summary_slot d (fst e) (snd e)) (range_entries hv iter)))
      = length (filter (Summary_fails hv) iter)" by simp
  also have "\<dots> = card ({pk. Summary_fails hv pk} \<inter> set iter)"
    using d by (simp add: distinct_length_filter)
  also have "{pk. Summary_fails hv pk} \<inter> set iter = {pk. Summary_fails hv pk}"
    using s by (auto simp: Summary_fails_def split: option.splits)
  finally show ?thesis .
qed

text \<open>
  C3. Let the registry hold \<open>N\<close> visors of which \<open>M\<close> fail their \<^verbatim>\<open>Summary()\<close> call,
  and let every call return. Then, in whatever order the loop visits the registry
  and the calls return, \<^verbatim>\<open>getVisors\<close> returns and writes one response, 200 with \<open>N\<close>
  entries, \<open>M\<close> of them offline and \<open>N - M\<close> online; the entry of a visor whose call
  failed is offline with a summary that holds its public key and nothing else, and
  the entry of a visor whose call succeeded is online with the summary the call
  returned. Each entry also carries the address of its connection.
\<close>

theorem fanout_summary_partial_failure:
  "range_order hv iter \<Longrightarrow> {..<length iter} \<subseteq> set sched \<Longrightarrow>
     \<exists>evs out. getVisors d hv iter sched = Some evs
       \<and> responses evs = [(200, JSummaries out)]
       \<and> length out = card (dom (visors hv))
       \<and> length (filter (\<lambda>s. \<not> Online s) out) = card {pk. Summary_fails hv pk}
       \<and> length (filter Online out) = card (dom (visors hv)) - card {pk. Summary_fails hv pk}
       \<and> (\<forall>i<length iter. \<forall>c. visors hv (iter ! i) = Some c \<longrightarrow>
             out ! i =
               (case RPC_Summary (RPC c) of
                  Inl err \<Rightarrow>
                    \<lparr>TCPAddr = Addr_String d (Addr c), Online = False,
                     Summary = Some \<lparr>PubKey = iter ! i, Payload = []\<rparr>\<rparr>
                | Inr summary \<Rightarrow>
                    \<lparr>TCPAddr = Addr_String d (Addr c), Online = True,
                     Summary = Some summary\<rparr>))"
proof -
  assume ro: "range_order hv iter" and cover: "{..<length iter} \<subseteq> set sched"
  let ?ents = "range_entries hv iter"
  let ?out = "map (\<lambda>e. summary_slot d (fst e) (snd e)) ?ents"
  have len: "length ?ents = length iter"
    using range_order_entries(1)[OF ro] by (metis length_map)
  from getVisors_eq[where d=d and hv=hv and iter=iter and sched=sched] obtain cs where
    cs: "list_all (\<lambda>e. \<exists>pk. e = Call pk Summary_call) cs"
    and gv: "getVisors d hv iter sched =
               Some (RLock # cs @ [RUnlock, WriteJSON 200 (JSummaries ?out)])"
    using cover len by auto
  have resp: "responses (RLock # cs @ [RUnlock, WriteJSON 200 (JSummaries ?out)])
      = [(200, JSummaries ?out)]"
    by (simp add: responses_Calls[OF cs])
  have n: "length ?out = card (dom (visors hv))"
    using range_order_entries(2)[OF ro] by simp
  have off: "length (filter (\<lambda>s. \<not> Online s) ?out) = card {pk. Summary_fails hv pk}"
    by (rule offline_count[OF ro])
  have "length (filter Online ?out) + length (filter (\<lambda>s. \<not> Online s) ?out) = length ?out"
    by (rule sum_length_filter_compl)
  then have on: "length (filter Online ?out)
      = card (dom (visors hv)) - card {pk. Summary_fails hv pk}"
    using n off by linarith
  have slot: "\<forall>i<length iter. \<forall>c. visors hv (iter ! i) = Some c \<longrightarrow>
             ?out ! i =
               (case RPC_Summary (RPC c) of
                  Inl err \<Rightarrow>
                    \<lparr>TCPAddr = Addr_String d (Addr c), Online = False,
                     Summary = Some \<lparr>PubKey = iter ! i, Payload = []\<rparr>\<rparr>
                | Inr summary \<Rightarrow>
                    \<lparr>TCPAddr = Addr_String d (Addr c), Online = True,
                     Summary = Some summary\<rparr>)"
  proof (intro allI impI)
    fix i c assume i: "i < length iter" and c: "visors hv (iter ! i) = Some c"
    have "?ents ! i = (iter ! i, c)" by (rule range_order_entries(3)[OF ro i c])
    then show "?out ! i =
               (case RPC_Summary (RPC c) of
                  Inl err \<Rightarrow>
                    \<lparr>TCPAddr = Addr_String d (Addr c), Online = False,
                     Summary = Some \<lparr>PubKey = iter ! i, Payload = []\<rparr>\<rparr>
                | Inr summary \<Rightarrow>
                    \<lparr>TCPAddr = Addr_String d (Addr c), Online = True,
                     Summary = Some summary\<rparr>)"
      using i len by (simp add: summary_slot_def split: sum.splits)
  qed
  show ?thesis
    using gv resp n off on slot by blast
qed

theorem fanout_summary_partial_failure_witness:
  "range_order demo_hv [''0c'', ''0a'', ''0b''] \<and> {..<length [''0c'', ''0a'', ''0b'']} \<subseteq> set [1, 2, 0]
   \<and> card (dom (visors demo_hv)) = 3 \<and> card {pk. Summary_fails demo_hv pk} = 1
   \<and> (\<exists>evs out. getVisors demo_deps demo_hv [''0c'', ''0a'', ''0b''] [1, 2, 0] = Some evs
        \<and> responses evs = [(200, JSummaries out)]
        \<and> length out = 3
        \<and> length (filter (\<lambda>s. \<not> Online s) out) = 1
        \<and> length (filter Online out) = 2)"
proof -
  have ro: "range_order demo_hv [''0c'', ''0a'', ''0b'']"
    by (auto simp: range_order_def demo_hv_visors)
  have cover: "{..<length [''0c'', ''0a'', ''0b'']} \<subseteq> set [1, 2, 0]"
    by (auto simp: lessThan_def)
  have n: "card (dom (visors demo_hv)) = 3"
    by (simp add: demo_hv_visors)
  have "{pk. Summary_fails demo_hv pk} = {''0b''}"
    by (auto simp: Summary_fails_def demo_hv_visors accepted_def up_client_def down_client_def
        split: if_splits)
  then have m: "card {pk. Summary_fails demo_hv pk} = 1" by simp
  from fanout_summary_partial_failure[OF ro cover, of demo_deps] obtain evs out where
    run: "getVisors demo_deps demo_hv [''0c'', ''0a'', ''0b''] [1, 2, 0] = Some evs"
    and resp: "responses evs = [(200, JSummaries out)]"
    and len: "length out = card (dom (visors demo_hv))"
    and off: "length (filter (\<lambda>s. \<not> Online s) out) = card {pk. Summary_fails demo_hv pk}"
    and on: "length (filter Online out)
               = card (dom (visors demo_hv)) - card {pk. Summary_fails demo_hv pk}"
    by blast
  have "length out = 3" and "length (filter (\<lambda>s. \<not> Online s) out) = 1"
    and "length (filter Online out) = 2"
    using len off on n m by simp_all
  then show ?thesis
    using ro cover n m run resp by blast
qed

text \<open>
  C8, as the code has it. The order of the entries is that in which the loop of the
  run visits the registry, whatever the order in which the calls return: two runs
  that visit the registry in the same order write the same response, whose \<open>i\<close>-th
  entry is that of the \<open>i\<close>-th key visited. The order of the visit itself is Go's
  order of \<^verbatim>\<open>range\<close> over a map, which is fixed neither by the registry nor by the
  order of the inserts.
\<close>

theorem fanout_order_is_range_order:
  "range_order hv iter \<Longrightarrow> getVisors d hv iter sched = Some evs \<Longrightarrow>
   getVisors d hv iter sched' = Some evs' \<Longrightarrow>
     responses evs = responses evs'
   \<and> (\<exists>out. responses evs = [(200, JSummaries out)] \<and> length out = length iter
        \<and> (\<forall>i<length iter. \<forall>c. visors hv (iter ! i) = Some c \<longrightarrow>
              out ! i = summary_slot d (iter ! i) c))"
proof -
  assume ro: "range_order hv iter" and r1: "getVisors d hv iter sched = Some evs"
    and r2: "getVisors d hv iter sched' = Some evs'"
  let ?ents = "range_entries hv iter"
  let ?out = "map (\<lambda>e. summary_slot d (fst e) (snd e)) ?ents"
  have len: "length ?ents = length iter"
    using range_order_entries(1)[OF ro] by (metis length_map)
  from getVisors_Some[OF r1] obtain cs where
    cs: "list_all (\<lambda>e. \<exists>pk. e = Call pk Summary_call) cs"
    and evs: "evs = RLock # cs @ [RUnlock, WriteJSON 200 (JSummaries ?out)]"
    by blast
  from getVisors_Some[OF r2] obtain cs' where
    cs': "list_all (\<lambda>e. \<exists>pk. e = Call pk Summary_call) cs'"
    and evs': "evs' = RLock # cs' @ [RUnlock, WriteJSON 200 (JSummaries ?out)]"
    by blast
  have resp: "responses evs = [(200, JSummaries ?out)]"
    by (simp add: evs responses_Calls[OF cs])
  have resp': "responses evs' = [(200, JSummaries ?out)]"
    by (simp add: evs' responses_Calls[OF cs'])
  have slot: "\<forall>i<length iter. \<forall>c. visors hv (iter ! i) = Some c \<longrightarrow>
      ?out ! i = summary_slot d (iter ! i) c"
  proof (intro allI impI)
    fix i c assume i: "i < length iter" and c: "visors hv (iter ! i) = Some c"
    have "?ents ! i = (iter ! i, c)" by (rule range_order_entries(3)[OF ro i c])
    then show "?out ! i = summary_slot d (iter ! i) c"
      using i len by simp
  qed
  have n: "length ?out = length iter" using len by simp
  show ?thesis
  proof (intro conjI exI[of _ ?out])
    show "responses evs = responses evs'" by (simp only: resp resp')
    show "responses evs = [(200, JSummaries ?out)]" by (rule resp)
    show "length ?out = length iter" by (rule n)
    show "\<forall>i<length iter. \<forall>c. visors hv (iter ! i) = Some c \<longrightarrow>
      ?out ! i = summary_slot d (iter ! i) c" by (rule slot)
  qed
qed

theorem fanout_order_is_range_order_witness:
  "range_order demo_hv [''0a'', ''0b'', ''0c'']
   \<and> responses (the (getVisors demo_deps demo_hv [''0a'', ''0b'', ''0c''] [2, 0, 1]))
     = responses (the (getVisors demo_deps demo_hv [''0a'', ''0b'', ''0c''] [1, 1, 2, 0]))
   \<and> (\<exists>out. responses (the (getVisors demo_deps demo_hv [''0a'', ''0b'', ''0c''] [2, 0, 1]))
               = [(200, JSummaries out)]
        \<and> out ! 1 = \<lparr>TCPAddr = ''0b'', Online = False,
                    Summary = Some \<lparr>PubKey = ''0b'', Payload = []\<rparr>\<rparr>)"
proof -
  have ro: "range_order demo_hv [''0a'', ''0b'', ''0c'']"
    by (auto simp: range_order_def demo_hv_visors)
  obtain evs where r1: "getVisors demo_deps demo_hv [''0a'', ''0b'', ''0c''] [2, 0, 1] = Some evs"
    by (simp add: getVisors_def range_entries_def List.map_filter_simps demo_hv_visors
        eval_nat_numeral insert_commute)
  obtain evs' where r2: "getVisors demo_deps demo_hv [''0a'', ''0b'', ''0c''] [1, 1, 2, 0] = Some evs'"
    by (simp add: getVisors_def range_entries_def List.map_filter_simps demo_hv_visors
        eval_nat_numeral insert_commute)
  have b: "visors demo_hv ([''0a'', ''0b'', ''0c''] ! 1)
      = Some (accepted 22 (\<lparr>PK = ''0b'', Port = 2\<rparr>, down_client))"
    by (simp add: demo_hv_visors)
  from fanout_order_is_range_order[OF ro r1 r2] obtain out where
    eq: "responses evs = responses evs'"
    and out: "responses evs = [(200, JSummaries out)]"
    and slot: "\<forall>i<length [''0a'', ''0b'', ''0c''].
                 \<forall>c. visors demo_hv ([''0a'', ''0b'', ''0c''] ! i) = Some c \<longrightarrow>
                   out ! i = summary_slot demo_deps ([''0a'', ''0b'', ''0c''] ! i) c"
    by blast
  have "out ! 1 = summary_slot demo_deps ([''0a'', ''0b'', ''0c''] ! 1)
                    (accepted 22 (\<lparr>PK = ''0b'', Port = 2\<rparr>, down_client))"
    using slot b by simp
  then have "out ! 1 = \<lparr>TCPAddr = ''0b'', Online = False,
                    Summary = Some \<lparr>PubKey = ''0b'', Payload = []\<rparr>\<rparr>"
    by (simp add: summary_slot_def accepted_def down_client_def demo_deps_def)
  then show ?thesis
    unfolding r1 r2 option.sel using ro eq out by blast
qed

text \<open>
  C8 as stated fails. The registry that accepted \<open>0a\<close>, \<open>0b\<close> and \<open>0c\<close> in this order
  has a run that visits them in this order and a run that visits them in the
  opposite order; the calls return in the same order in both, and the second run
  answers with the entries of \<open>0c\<close>, \<open>0b\<close>, \<open>0a\<close>, not those of \<open>0a\<close>, \<open>0b\<close>, \<open>0c\<close>.
\<close>

theorem fanout_order_differs_between_runs:
  "range_order demo_hv [''0a'', ''0b'', ''0c''] \<and> range_order demo_hv [''0c'', ''0b'', ''0a'']
   \<and> responses (the (getVisors demo_deps demo_hv [''0a'', ''0b'', ''0c''] [0, 1, 2])) =
       [(200, JSummaries
          [\<lparr>TCPAddr = ''0a'', Online = True,
              Summary = Some \<lparr>PubKey = ''0a'', Payload = [''skychat'']\<rparr>\<rparr>,
           \<lparr>TCPAddr = ''0b'', Online = False,
              Summary = Some \<lparr>PubKey = ''0b'', Payload = []\<rparr>\<rparr>,
           \<lparr>TCPAddr = ''0c'', Online = True,
              Summary = Some \<lparr>PubKey = ''0c'', Payload = [''skychat'']\<rparr>\<rparr>])]
   \<and> responses (the (getVisors demo_deps demo_hv [''0c'', ''0b'', ''0a''] [0, 1, 2])) =
       [(200, JSummaries
          [\<lparr>TCPAddr = ''0c'', Online = True,
              Summary = Some \<lparr>PubKey = ''0c'', Payload = [''skychat'']\<rparr>\<rparr>,
           \<lparr>TCPAddr = ''0b'', Online = False,
              Summary = Some \<lparr>PubKey = ''0b'', Payload = []\<rparr>\<rparr>,
           \<lparr>TCPAddr = ''0a'', Online = True,
              Summary = Some \<lparr>PubKey = ''0a'', Payload = [''skychat'']\<rparr>\<rparr>])]"
  by (simp add: range_order_def getVisors_def range_entries_def List.map_filter_simps
      demo_hv_visors summary_slot_def zero_summaryResp_def accepted_def up_client_def
      down_client_def demo_deps_def eval_nat_numeral insert_commute)

end
